theory Spec2Isabelle
  imports Main "HOL-Library.Monad_Syntax"
begin

section \<open>JavaScript strings\<close>

text \<open>
  A JavaScript string is a sequence of UTF-16 code units. The rows, names and dates this
  program reads are Spanish text, whose letters all lie below code unit 256, so a string is
  modelled as a \<open>char list\<close> and each \<open>char\<close> is read as the code unit of the same number
  (\<open>CHR 0xF1\<close> is the letter n with tilde, \<open>CHR 0xED\<close> the letter i with acute accent).
\<close>

definition isWhiteSpace :: "char \<Rightarrow> bool" where
  \<comment> \<open>the class \<open>\s\<close> of a regular expression, and what \<open>trim\<close> removes: tab, line feed,
      vertical tab, form feed, carriage return, space, no-break space\<close>
  "isWhiteSpace c = (of_char c \<in> {9::int, 10, 11, 12, 13, 32, 160})"

definition isDigit :: "char \<Rightarrow> bool" where
  \<comment> \<open>the class \<open>\d\<close>\<close>
  "isDigit c = (48 \<le> (of_char c :: int) \<and> (of_char c :: int) \<le> 57)"

definition js_trim :: "string \<Rightarrow> string" where
  "js_trim s = rev (dropWhile isWhiteSpace (rev (dropWhile isWhiteSpace s)))"

definition lowerChar :: "char \<Rightarrow> char" where
  \<comment> \<open>\<open>A\<close>..\<open>Z\<close> and the accented capitals \<open>0xC0\<close>..\<open>0xDE\<close> (the sign \<open>0xD7\<close> apart) move up by 32\<close>
  "lowerChar c =
     (let n = (of_char c :: int) in
      if (65 \<le> n \<and> n \<le> 90) \<or> (192 \<le> n \<and> n \<le> 222 \<and> n \<noteq> 215) then char_of (n + 32) else c)"

definition js_toLowerCase :: "string \<Rightarrow> string" where
  "js_toLowerCase s = map lowerChar s"

definition startsWith :: "string \<Rightarrow> string \<Rightarrow> bool" where
  "startsWith s p = (take (length p) s = p)"

fun js_includes :: "string \<Rightarrow> string \<Rightarrow> bool" where
  "js_includes [] p = (p = [])"
| "js_includes (c # cs) p = (startsWith (c # cs) p \<or> js_includes cs p)"

fun indexOfFrom :: "int \<Rightarrow> string \<Rightarrow> string \<Rightarrow> int" where
  "indexOfFrom i [] p = (if p = [] then i else - 1)"
| "indexOfFrom i (c # cs) p = (if startsWith (c # cs) p then i else indexOfFrom (i + 1) cs p)"

definition js_indexOf :: "string \<Rightarrow> string \<Rightarrow> int" where
  \<comment> \<open>\<open>s.indexOf(p)\<close>: the first position of \<open>p\<close> in \<open>s\<close>, or \<open>-1\<close>\<close>
  "js_indexOf s p = indexOfFrom 0 s p"

definition js_substring :: "string \<Rightarrow> int \<Rightarrow> int \<Rightarrow> string" where
  \<comment> \<open>\<open>s.substring(a, b)\<close>: both ends are clamped to the string and swapped if out of order\<close>
  "js_substring s a b =
     (let n = int (length s);
          a' = min (max a 0) n;
          b' = min (max b 0) n;
          lo = min a' b';
          hi = max a' b'
      in take (nat (hi - lo)) (drop (nat lo) s))"

function collapseWhiteSpace :: "string \<Rightarrow> string" where
  \<comment> \<open>\<open>text.replace(/\s+/g, ' ')\<close>: every maximal run of white space becomes one space\<close>
  "collapseWhiteSpace [] = []"
| "collapseWhiteSpace (c # cs) =
     (if isWhiteSpace c then CHR '' '' # collapseWhiteSpace (dropWhile isWhiteSpace cs)
      else c # collapseWhiteSpace cs)"
  by pat_completeness auto
termination
  by (relation "measure length") (auto simp: length_dropWhile_le less_Suc_eq_le)

fun parseInt :: "string \<Rightarrow> int" where
  \<comment> \<open>\<open>parseInt(ds, 10)\<close> on a string of decimal digits, most significant first\<close>
  "parseInt ds = foldl (\<lambda>n c. 10 * n + (of_char c - 48)) 0 ds"

subsection \<open>Regular expressions\<close>

text \<open>
  Each regular expression of the source is a function that tries the expression at the head
  of a string; \<open>searchRe\<close> tries it at every position from the left, as an unanchored
  \<open>match\<close> does. The pieces are greedy and never backtrack: in every expression below
  the character after a repetition lies outside the repeated class (a digit run is followed
  by a slash, a colon, a letter or white space; a white-space run by a digit or a letter), so
  giving characters back can never turn a failure into a match.
\<close>

fun searchRe :: "(string \<Rightarrow> 'a option) \<Rightarrow> string \<Rightarrow> 'a option" where
  "searchRe f [] = f []"
| "searchRe f (c # cs) = (case f (c # cs) of Some r \<Rightarrow> Some r | None \<Rightarrow> searchRe f cs)"

definition eatDigits :: "nat \<Rightarrow> string \<Rightarrow> string option" where
  \<comment> \<open>\<open>\d{n}\<close>: exactly \<open>n\<close> digits; the result is the rest of the string\<close>
  "eatDigits n s = (if n \<le> length s \<and> list_all isDigit (take n s) then Some (drop n s) else None)"

definition eatChar :: "char \<Rightarrow> string \<Rightarrow> string option" where
  "eatChar c s = (case s of [] \<Rightarrow> None | x # r \<Rightarrow> if x = c then Some r else None)"

definition eatSpaces1 :: "string \<Rightarrow> string option" where
  \<comment> \<open>\<open>\s+\<close>\<close>
  "eatSpaces1 s =
     (case s of [] \<Rightarrow> None | x # r \<Rightarrow> if isWhiteSpace x then Some (dropWhile isWhiteSpace r) else None)"

definition dateTimeAt :: "string \<Rightarrow> string option" where
  \<comment> \<open>\<open>/(\d{2}\/\d{2}\/\d{4}\s+\d{2}:\d{2})/\<close> at the head of \<open>s\<close>; the result is group 1,
      the matched text\<close>
  "dateTimeAt s =
     (case eatDigits 2 s \<bind> eatChar CHR ''/'' \<bind> eatDigits 2 \<bind> eatChar CHR ''/'' \<bind> eatDigits 4
             \<bind> eatSpaces1 \<bind> eatDigits 2 \<bind> eatChar CHR '':'' \<bind> eatDigits 2 of
        None \<Rightarrow> None
      | Some r \<Rightarrow> Some (take (length s - length r) s))"

definition contactMatch :: "string \<Rightarrow> (string \<times> string) option" where
  \<comment> \<open>\<open>/^([^(]+)\s*\(([^)]+)\)/\<close>: group 1 runs up to the first opening parenthesis and is not
      empty, group 2 from there up to the next closing parenthesis and is not empty. Group 1
      cannot stop earlier: the only opening parenthesis that \<open>\s*\<close> can reach is that first
      one, and \<open>\s*\<close> then matches nothing of what group 1 has left.\<close>
  "contactMatch s =
     (let g1 = takeWhile (\<lambda>c. c \<noteq> CHR ''('') s;
          r = dropWhile (\<lambda>c. c \<noteq> CHR ''('') s
      in if g1 = [] then None
         else (case r of
                 [] \<Rightarrow> None
               | _ # r' \<Rightarrow>
                   (let g2 = takeWhile (\<lambda>c. c \<noteq> CHR '')'') r';
                        r2 = dropWhile (\<lambda>c. c \<noteq> CHR '')'') r'
                    in if g2 = [] \<or> r2 = [] then None else Some (g1, g2))))"

section \<open>The row parser\<close>

text \<open>
  A lead as the row parser (or the fallback extraction) hands it to the collection loop.
  A field is \<open>None\<close> when the object has no such key or holds \<open>null\<close> there; every reader
  of these fields treats the two alike. \<open>underscore_agentName\<close> is the key \<open>_agentName\<close>.
\<close>

record raw_lead =
  contactName :: "string option"
  propertyName :: "string option"
  vigencia :: "string option"
  propertyAddress :: "string option"
  lastUpdated :: "string option"
  status :: "string option"
  underscore_agentName :: "string option"

definition parseLeadFromText :: "string option \<Rightarrow> raw_lead option" where
  "parseLeadFromText text =
     (case text of
        None \<Rightarrow> None
      | Some t \<Rightarrow>
          if t = [] then None
          else
            (let cleanText = js_trim (collapseWhiteSpace t);
                 dateMatch = searchRe dateTimeAt cleanText;
                 lastUpdated = dateMatch;
                 cm = contactMatch cleanText;
                 contactName = map_option (\<lambda>(g1, g2). js_trim g1) cm;
                 agentName = map_option (\<lambda>(g1, g2). js_trim g2) cm;
                 propertyAddress =
                   (case (cm, dateMatch) of
                      (Some _, Some d) \<Rightarrow>
                        (let afterAgent = js_indexOf cleanText '')'' + 1;
                             beforeDate = js_indexOf cleanText d
                         in if afterAgent > 0 \<and> beforeDate > afterAgent
                            then Some (js_trim (dropWhile (\<lambda>c. isWhiteSpace c \<or> c = CHR ''@'')
                                         (js_trim (js_substring cleanText afterAgent beforeDate))))
                            else None)
                    | _ \<Rightarrow> None)
             in (case contactName of
                   None \<Rightarrow> None
                 | Some n \<Rightarrow>
                     if n = [] then None
                     else Some \<lparr> contactName = Some n, propertyName = None, vigencia = None,
                                  propertyAddress = propertyAddress, lastUpdated = lastUpdated,
                                  status = None, underscore_agentName = agentName \<rparr>)))"

definition orElse :: "string option \<Rightarrow> string \<Rightarrow> string" where
  \<comment> \<open>\<open>x || d\<close> on a string or absent \<open>x\<close>: the empty string is falsy too\<close>
  "orElse x d = (case x of None \<Rightarrow> d | Some s \<Rightarrow> if s = [] then d else s)"

definition getLeadKey :: "raw_lead \<Rightarrow> string" where
  "getLeadKey lead =
     js_toLowerCase (orElse (contactName lead) [] @ ''-'' @ orElse (propertyName lead) [] @ ''-''
                     @ orElse (vigencia lead) [])"

section \<open>The date resolver\<close>

text \<open>
  A \<open>Date\<close> object holds a time value in milliseconds or is the invalid date. The resolver
  reads and writes dates through their local fields (\<open>getDate\<close>, \<open>setHours\<close>,
  \<open>new Date(y, m, d)\<close>), so a time value is kept here as local time: the milliseconds since
  local midnight of 1 January 1970. In a zone with a fixed offset to UTC this is the UTC time
  value shifted by a constant, and comparing two dates gives the same answer in both.
\<close>

datatype jsdate = InvalidDate | TimeValue int

definition msPerDay :: int where "msPerDay = 86400000"
definition msPerHour :: int where "msPerHour = 3600000"
definition msPerMinute :: int where "msPerMinute = 60000"

definition timeClip :: "int \<Rightarrow> jsdate" where
  \<comment> \<open>a time value further than \<open>8.64e15\<close> ms from the epoch is the invalid date\<close>
  "timeClip t = (if \<bar>t\<bar> \<le> 8640000000000000 then TimeValue t else InvalidDate)"

definition daysFromCivil :: "int \<Rightarrow> int \<Rightarrow> int" where
  \<comment> \<open>the day number (days since 1 January 1970) of the first day of month \<open>m\<close>
      (\<open>0\<close> = January .. \<open>11\<close> = December) of year \<open>y\<close> in the Gregorian calendar\<close>
  "daysFromCivil y m =
     (let y' = (if m \<le> 1 then y - 1 else y);
          era = y' div 400;
          yoe = y' - era * 400;
          mp = (m + 10) mod 12;
          doy = (153 * mp + 2) div 5;
          doe = yoe * 365 + yoe div 4 - yoe div 100 + doy
      in era * 146097 + doe - 719468)"

definition makeDay :: "int \<Rightarrow> int \<Rightarrow> int \<Rightarrow> int" where
  \<comment> \<open>\<open>MakeDay(year, month, date)\<close> of the language standard: months and days out of
      range carry over\<close>
  "makeDay y m d = daysFromCivil (y + m div 12) (m mod 12) + d - 1"

definition localInstant :: "int \<Rightarrow> int \<Rightarrow> int \<Rightarrow> int \<Rightarrow> int \<Rightarrow> jsdate" where
  \<comment> \<open>\<open>new Date(y, m, d, h, min)\<close>: a year from 0 to 99 means 1900 + year\<close>
  "localInstant y m d h mi =
     (let yr = (if 0 \<le> y \<and> y \<le> 99 then 1900 + y else y)
      in timeClip (makeDay yr m d * msPerDay + h * msPerHour + mi * msPerMinute))"

definition newDate :: "int \<Rightarrow> int \<Rightarrow> int \<Rightarrow> jsdate" where
  \<comment> \<open>\<open>new Date(y, m, d)\<close>: local midnight\<close>
  "newDate y m d = localInstant y m d 0 0"

definition minusDays :: "int \<Rightarrow> int \<Rightarrow> jsdate" where
  \<comment> \<open>\<open>date.setDate(date.getDate() - n)\<close> on a copy of \<open>now\<close>: \<open>MakeDay\<close> carries the
      day of the month over, which moves the local day number back by \<open>n\<close> and keeps the
      time within the day\<close>
  "minusDays now n = timeClip (now - n * msPerDay)"

definition minusHours :: "int \<Rightarrow> int \<Rightarrow> jsdate" where
  \<comment> \<open>\<open>date.setHours(date.getHours() - n)\<close> on a copy of \<open>now\<close>\<close>
  "minusHours now n = timeClip (now - n * msPerHour)"

definition minusMinutes :: "int \<Rightarrow> int \<Rightarrow> jsdate" where
  \<comment> \<open>\<open>date.setMinutes(date.getMinutes() - n)\<close> on a copy of \<open>now\<close>\<close>
  "minusMinutes now n = timeClip (now - n * msPerMinute)"

definition numberBefore :: "string \<Rightarrow> string \<Rightarrow> string option" where
  \<comment> \<open>\<open>/(\d+)\s*unit/\<close> at the head of \<open>s\<close>; the result is group 1\<close>
  "numberBefore unit s =
     (let ds = takeWhile isDigit s;
          r = dropWhile isWhiteSpace (dropWhile isDigit s)
      in if ds \<noteq> [] \<and> startsWith r unit then Some ds else None)"

definition haceBefore :: "string \<Rightarrow> string \<Rightarrow> string option" where
  \<comment> \<open>\<open>/hace\s*(\d+)\s*unit/\<close> at the head of \<open>s\<close>; the result is group 1\<close>
  "haceBefore unit s =
     (if startsWith s ''hace'' then numberBefore unit (dropWhile isWhiteSpace (drop 4 s))
      else None)"

definition eatDigits12 :: "string \<Rightarrow> (string \<times> string) option" where
  \<comment> \<open>\<open>(\d{1,2})\<close>: one or two digits, two if there are two; the group and the rest\<close>
  "eatDigits12 s =
     (let ds = takeWhile isDigit (take 2 s)
      in if ds = [] then None else Some (ds, drop (length ds) s))"

definition ddmmyyyyAt :: "string \<Rightarrow> (string \<times> string \<times> string) option" where
  \<comment> \<open>\<open>/(\d{1,2})\/(\d{1,2})\/(\d{4})/\<close> at the head of \<open>s\<close>; the result is groups 1, 2, 3\<close>
  "ddmmyyyyAt s =
     do {
       (d, r1) \<leftarrow> eatDigits12 s;
       r2 \<leftarrow> eatChar CHR ''/'' r1;
       (m, r3) \<leftarrow> eatDigits12 r2;
       r4 \<leftarrow> eatChar CHR ''/'' r3;
       _ \<leftarrow> eatDigits 4 r4;
       Some (d, m, take 4 r4)
     }"

definition anyo :: string where "anyo = [CHR ''a'', CHR 0xF1, CHR ''o'']"
definition dia :: string where "dia = [CHR ''d'', CHR 0xED, CHR ''a'']"

definition relativeRule :: "int \<Rightarrow> string \<Rightarrow> jsdate option" where
  \<comment> \<open>the block "relative dates": years of 365 days, months of 30 days and days are summed
      and taken off \<open>now\<close>; a sum of zero falls through to the next block\<close>
  "relativeRule now cleanStr =
     (if js_includes cleanStr anyo \<or> js_includes cleanStr dia \<or> js_includes cleanStr ''mes''
      then
        (let totalDays =
               (case searchRe (numberBefore anyo) cleanStr of
                  None \<Rightarrow> 0 | Some ds \<Rightarrow> parseInt ds * 365)
             + (case searchRe (numberBefore ''mes'') cleanStr of
                  None \<Rightarrow> 0 | Some ds \<Rightarrow> parseInt ds * 30)
             + (case searchRe (numberBefore dia) cleanStr of
                  None \<Rightarrow> 0 | Some ds \<Rightarrow> parseInt ds)
         in if totalDays > 0 then Some (minusDays now totalDays) else None)
      else None)"

definition haceRule :: "int \<Rightarrow> string \<Rightarrow> jsdate option" where
  \<comment> \<open>the block "hace X horas/minutos": hours are tried before minutes\<close>
  "haceRule now cleanStr =
     (if js_includes cleanStr ''hace''
      then
        (case searchRe (haceBefore ''hora'') cleanStr of
           Some ds \<Rightarrow> Some (minusHours now (parseInt ds))
         | None \<Rightarrow>
             (case searchRe (haceBefore ''minuto'') cleanStr of
                Some ds \<Rightarrow> Some (minusMinutes now (parseInt ds))
              | None \<Rightarrow> None))
      else None)"

definition standardRule :: "(string \<Rightarrow> jsdate) \<Rightarrow> string \<Rightarrow> jsdate option" where
  \<comment> \<open>the block "standard date formats": \<open>new Date(dateStr)\<close> is the parser of the
      JavaScript runtime, a parameter \<open>dateParse\<close> here; an invalid date falls through\<close>
  "standardRule dateParse dateStr =
     (case dateParse dateStr of InvalidDate \<Rightarrow> None | TimeValue t \<Rightarrow> Some (TimeValue t))"

definition ddmmyyyyRule :: "string \<Rightarrow> jsdate option" where
  \<comment> \<open>the block "DD/MM/YYYY": only the three date groups are read; what follows them in
      the string, a time of day for one, is not\<close>
  "ddmmyyyyRule dateStr =
     (case searchRe ddmmyyyyAt dateStr of
        None \<Rightarrow> None
      | Some (d, m, y) \<Rightarrow>
          Some (newDate (parseInt y) (parseInt m - 1) (parseInt d)))"

definition parseDate :: "(string \<Rightarrow> jsdate) \<Rightarrow> int \<Rightarrow> string option \<Rightarrow> jsdate option" where
  \<comment> \<open>\<open>now\<close> is the reading of the clock, \<open>new Date()\<close>; the result \<open>None\<close> is \<open>null\<close>\<close>
  "parseDate dateParse now dateStr =
     (case dateStr of
        None \<Rightarrow> None
      | Some s \<Rightarrow>
          if s = [] then None
          else
            (let cleanStr = js_toLowerCase (js_trim s)
             in (case relativeRule now cleanStr of
                   Some d \<Rightarrow> Some d
                 | None \<Rightarrow>
                     (case haceRule now cleanStr of
                        Some d \<Rightarrow> Some d
                      | None \<Rightarrow>
                          (case standardRule dateParse s of
                             Some d \<Rightarrow> Some d
                           | None \<Rightarrow> ddmmyyyyRule s)))))"

section \<open>Errors and the session check\<close>

text \<open>
  What a \<open>throw\<close> carries: a \<open>SessionClosedError\<close>, the only error class the program
  defines, or any other \<open>Error\<close>; both with their message.
\<close>

datatype error = SessionClosedError string | Error string

definition message :: "error \<Rightarrow> string" where
  "message e = (case e of SessionClosedError m \<Rightarrow> m | Error m \<Rightarrow> m)"

definition sessionClosedMessage :: string where
  \<comment> \<open>the default message of the constructor of \<open>SessionClosedError\<close>\<close>
  "sessionClosedMessage =
     ''Sesi'' @ [CHR 0xF3] @ ''n cerrada inesperadamente. Otro usuario se conect'' @ [CHR 0xF3]
     @ '' con las mismas credenciales.''"

definition checkSessionActive :: "string \<Rightarrow> error + unit" where
  \<comment> \<open>the argument is \<open>page.url()\<close>\<close>
  "checkSessionActive currentUrl =
     (if js_includes currentUrl ''/not_connected''
      then Inl (SessionClosedError sessionClosedMessage) else Inr ())"

section \<open>The deduplication store\<close>

text \<open>
  A field of an exported lead: a string, \<open>null\<close> or \<open>undefined\<close>.
\<close>

datatype jsval = Undefined | Null | Str string

text \<open>
  The object the collection loop builds for a lead. The nested objects \<open>contact\<close>,
  \<open>agent\<close> and \<open>property\<close> are flattened: \<open>contact_email\<close> is \<open>contact.email\<close>.
  \<open>lead_lastUpdated\<close> is the key \<open>lastUpdated\<close>. \<open>scrapedAt\<close> holds the reading of the
  clock that the source prints as an ISO string.
\<close>

record structured_lead =
  contact_name :: jsval
  contact_email :: jsval
  contact_phone :: jsval
  contact_cellPhone :: jsval
  agent_name :: jsval
  property_id :: jsval
  property_address :: jsval
  lead_lastUpdated :: jsval
  scrapedAt :: int

text \<open>
  \<open>allLeads\<close> is a \<open>Map\<close>: it keeps its keys in the order of their first insertion, and
  \<open>set\<close> on a key it has replaces the value where it stands. It is modelled as an
  association list with one pair for each key.
\<close>

type_synonym store = "(string \<times> structured_lead) list"

fun mapHas :: "store \<Rightarrow> string \<Rightarrow> bool" where
  "mapHas [] k = False"
| "mapHas ((k', v) # m) k = (k' = k \<or> mapHas m k)"

fun mapSet :: "string \<Rightarrow> structured_lead \<Rightarrow> store \<Rightarrow> store" where
  "mapSet k v [] = [(k, v)]"
| "mapSet k v ((k', v') # m) = (if k' = k then (k, v) # m else (k', v') # mapSet k v m)"

definition mapSize :: "store \<Rightarrow> nat" where
  "mapSize m = length m"

definition mapValues :: "store \<Rightarrow> structured_lead list" where
  \<comment> \<open>\<open>Array.from(allLeads.values())\<close>\<close>
  "mapValues m = map snd m"

section \<open>The collection loop\<close>

text \<open>
  What the page answers is outside the program, so it is an input of the model.
  A \<open>seen_lead\<close> is a lead that \<open>scrapeVisibleLeads\<close> returned, together with what the
  page and the clock answer when the loop handles that lead: the clock read by
  \<open>parseDate\<close>, what \<open>extractPropertyDetails\<close> and \<open>extractContactDetails\<close> return or
  throw, and the clock read for \<open>scrapedAt\<close>.
\<close>

datatype property_result =
    Unmodified   \<comment> \<open>the function returned the lead as it was: no address, no link, or an error\<close>
  | Modal "string option" "string option"
      \<comment> \<open>the modal was tried: the property id and the agent read from it, each or \<open>null\<close>\<close>

record contact_info =
  email :: "string option"
  phone :: "string option"
  cellPhone :: "string option"

record seen_lead =
  lead :: raw_lead
  clockAtParse :: int
  propertyDetails :: "error + property_result"
  contactDetails :: "error + contact_info"
  clockAtStamp :: int

record scroll_result =
  newScroll :: int
  maxScroll :: int

text \<open>
  One iteration of the loop observes: the address of the page at the check that opens the
  iteration, what \<open>scrapeVisibleLeads\<close> returns or throws, what \<open>scrollContainer\<close> returns
  or throws and, at the end of the scroll, what \<open>waitForNetworkIdle\<close> throws and what the
  last \<open>scrapeVisibleLeads\<close> returns or throws.
\<close>

record pass_obs =
  url :: string
  visibleLeads :: "error + seen_lead list"
  scrollResult :: "error + scroll_result"
  finalIdle :: "error option"
  finalLeads :: "error + seen_lead list"

record options =
  maxScrolls :: nat
  maxLeads :: nat
  extractDetails :: bool

record loop_state =
  allLeads :: store
  scrollCount :: nat
  noNewLeadsCount :: nat
  reachedTargetDate :: bool

definition orNull :: "string option \<Rightarrow> jsval" where
  \<comment> \<open>\<open>x || null\<close>\<close>
  "orNull x = (case x of None \<Rightarrow> Null | Some s \<Rightarrow> if s = [] then Null else Str s)"

definition orOpt :: "string option \<Rightarrow> string option \<Rightarrow> string option" where
  \<comment> \<open>\<open>x || y\<close>\<close>
  "orOpt x y = (case x of None \<Rightarrow> y | Some s \<Rightarrow> if s = [] then y else Some s)"

definition nullable :: "string option \<Rightarrow> jsval" where
  \<comment> \<open>a value that is a string or \<open>null\<close>, copied as it is\<close>
  "nullable x = (case x of None \<Rightarrow> Null | Some s \<Rightarrow> Str s)"

definition leadDateStr :: "raw_lead \<Rightarrow> string option" where
  \<comment> \<open>\<open>lead.vigencia || lead.lastUpdated\<close>\<close>
  "leadDateStr l = orOpt (vigencia l) (lastUpdated l)"

definition olderThan :: "jsdate option \<Rightarrow> int \<Rightarrow> bool" where
  \<comment> \<open>\<open>leadDate && leadDate < targetDate\<close>: the invalid date compares false\<close>
  "olderThan leadDate targetDate =
     (case leadDate of Some (TimeValue t) \<Rightarrow> t < targetDate | _ \<Rightarrow> False)"

definition undatedOrRecent :: "jsdate option \<Rightarrow> int \<Rightarrow> bool" where
  \<comment> \<open>\<open>!leadDate || leadDate >= targetDate\<close>: the invalid date is an object, and compares
      false\<close>
  "undatedOrRecent leadDate targetDate =
     (case leadDate of None \<Rightarrow> True | Some InvalidDate \<Rightarrow> False | Some (TimeValue t) \<Rightarrow> t \<ge> targetDate)"

fun filterLeads ::
  "(string \<Rightarrow> jsdate) \<Rightarrow> int \<Rightarrow> store \<Rightarrow> seen_lead list \<Rightarrow> (seen_lead \<times> string) list \<times> bool" where
  \<comment> \<open>the first \<open>for\<close> of an iteration, "filter leads by date before extracting details":
      the result is \<open>leadsToProcess\<close> and whether the loop set \<open>reachedTargetDate\<close>\<close>
  "filterLeads dateParse targetDate store [] = ([], False)"
| "filterLeads dateParse targetDate store (l # ls) =
     (let key = getLeadKey (lead l) in
      if mapHas store key then filterLeads dateParse targetDate store ls
      else if olderThan (parseDate dateParse (clockAtParse l) (leadDateStr (lead l))) targetDate
      then ([], True)
      else (let (ps, reached) = filterLeads dateParse targetDate store ls
            in ((l, key) # ps, reached)))"

definition structuredLead ::
  "raw_lead \<Rightarrow> jsval \<Rightarrow> string option \<Rightarrow> contact_info \<Rightarrow> int \<Rightarrow> structured_lead" where
  \<comment> \<open>the object literal of the second \<open>for\<close>\<close>
  "structuredLead l propertyId propertyAgent contactInfo stamp =
     \<lparr> contact_name = orNull (contactName l),
       contact_email = nullable (email contactInfo),
       contact_phone = nullable (phone contactInfo),
       contact_cellPhone = nullable (cellPhone contactInfo),
       agent_name = orNull (orOpt propertyAgent (underscore_agentName l)),
       property_id = propertyId,
       property_address = orNull (propertyAddress l),
       lead_lastUpdated = orNull (lastUpdated l),
       scrapedAt = stamp \<rparr>"

definition noContactInfo :: contact_info where
  "noContactInfo = \<lparr> email = None, phone = None, cellPhone = None \<rparr>"

definition propertyIdOf :: "property_result \<Rightarrow> jsval" where
  \<comment> \<open>\<open>leadWithProperty.propertyId\<close>: a lead returned as it was has no such key\<close>
  "propertyIdOf r = (case r of Unmodified \<Rightarrow> Undefined | Modal pid ag \<Rightarrow> nullable pid)"

definition propertyAgentOf :: "raw_lead \<Rightarrow> property_result \<Rightarrow> string option" where
  \<comment> \<open>\<open>leadWithProperty.propertyAgent\<close>, which the modal branch sets to
      \<open>propertyAgent || lead._agentName\<close>\<close>
  "propertyAgentOf l r =
     (case r of Unmodified \<Rightarrow> None | Modal pid ag \<Rightarrow> orOpt ag (underscore_agentName l))"

definition extractAndStructure :: "options \<Rightarrow> seen_lead \<Rightarrow> error + structured_lead" where
  \<comment> \<open>the body of the second \<open>for\<close> after the check of \<open>maxLeads\<close>: the two extractions,
      run only with \<open>extractDetails\<close>, and the object literal\<close>
  "extractAndStructure opts l =
     (if extractDetails opts then
        (case propertyDetails l of
           Inl e \<Rightarrow> Inl e
         | Inr leadWithProperty \<Rightarrow>
             (case contactDetails l of
                Inl e \<Rightarrow> Inl e
              | Inr contactInfo \<Rightarrow>
                  Inr (structuredLead (lead l) (propertyIdOf leadWithProperty)
                         (propertyAgentOf (lead l) leadWithProperty) contactInfo (clockAtStamp l))))
      else Inr (structuredLead (lead l) Null None noContactInfo (clockAtStamp l)))"

fun processLeads :: "options \<Rightarrow> store \<Rightarrow> (seen_lead \<times> string) list \<Rightarrow> error + store" where
  \<comment> \<open>the second \<open>for\<close> of an iteration, over \<open>leadsToProcess\<close>\<close>
  "processLeads opts store [] = Inr store"
| "processLeads opts store ((l, key) # ps) =
     (if mapSize store \<ge> maxLeads opts then Inr store
      else (case extractAndStructure opts l of
              Inl e \<Rightarrow> Inl e
            | Inr structured \<Rightarrow> processLeads opts (mapSet key structured store) ps))"

fun finalRescan :: "(string \<Rightarrow> jsdate) \<Rightarrow> int \<Rightarrow> store \<Rightarrow> seen_lead list \<Rightarrow> store" where
  \<comment> \<open>the \<open>for\<close> over \<open>finalLeads\<close> at the end of the scroll\<close>
  "finalRescan dateParse targetDate store [] = store"
| "finalRescan dateParse targetDate store (l # ls) =
     (let key = getLeadKey (lead l) in
      if \<not> mapHas store key
         \<and> undatedOrRecent (parseDate dateParse (clockAtParse l) (leadDateStr (lead l))) targetDate
      then finalRescan dateParse targetDate
             (mapSet key (structuredLead (lead l) Null None noContactInfo (clockAtStamp l)) store) ls
      else finalRescan dateParse targetDate store ls)"

definition atEndOfScroll :: "scroll_result \<Rightarrow> bool" where
  \<comment> \<open>\<open>scrollResult.newScroll >= scrollResult.maxScroll * 0.99\<close>, on whole pixels\<close>
  "atEndOfScroll r = (100 * newScroll r \<ge> 99 * maxScroll r)"

datatype pass_result =
    Throws error          \<comment> \<open>an error leaves the loop and the function\<close>
  | Break loop_state      \<comment> \<open>a \<open>break\<close> leaves the loop\<close>
  | Continue loop_state   \<comment> \<open>the body ran to its end\<close>

definition loopCondition :: "options \<Rightarrow> loop_state \<Rightarrow> bool" where
  "loopCondition opts s =
     (scrollCount s < maxScrolls opts \<and> mapSize (allLeads s) < maxLeads opts
      \<and> noNewLeadsCount s < 5 \<and> \<not> reachedTargetDate s)"

definition loopBody ::
  "(string \<Rightarrow> jsdate) \<Rightarrow> int \<Rightarrow> options \<Rightarrow> pass_obs \<Rightarrow> loop_state \<Rightarrow> pass_result" where
  \<comment> \<open>the body of the \<open>while\<close>\<close>
  "loopBody dateParse targetDate opts obs s =
     (case checkSessionActive (url obs) of
        Inl e \<Rightarrow> Throws e
      | Inr _ \<Rightarrow>
     (case visibleLeads obs of
        Inl e \<Rightarrow> Throws e
      | Inr visible \<Rightarrow>
     (let previousCount = mapSize (allLeads s);
          (leadsToProcess, reached) = filterLeads dateParse targetDate (allLeads s) visible
      in
     (case processLeads opts (allLeads s) leadsToProcess of
        Inl e \<Rightarrow> Throws e
      | Inr store \<Rightarrow>
          if reached then Break (s\<lparr> allLeads := store, reachedTargetDate := True \<rparr>)
          else
            (let newLeadsFound = mapSize store - previousCount;
                 s' = s\<lparr> allLeads := store,
                         noNewLeadsCount := (if newLeadsFound = 0 then noNewLeadsCount s + 1 else 0),
                         scrollCount := scrollCount s + 1 \<rparr>
             in
            (case scrollResult obs of
               Inl e \<Rightarrow> Throws e
             | Inr r \<Rightarrow>
                 if atEndOfScroll r then
                   (case finalIdle obs of
                      Some e \<Rightarrow> Throws e
                    | None \<Rightarrow>
                        (case finalLeads obs of
                           Inl e \<Rightarrow> Throws e
                         | Inr final \<Rightarrow>
                             Break (s'\<lparr> allLeads := finalRescan dateParse targetDate store final \<rparr>)))
                 else Continue s'))))))"

function whileLoop ::
  "(string \<Rightarrow> jsdate) \<Rightarrow> int \<Rightarrow> options \<Rightarrow> (nat \<Rightarrow> pass_obs) \<Rightarrow> loop_state \<Rightarrow> error + loop_state" where
  \<comment> \<open>\<open>feed i\<close> is what the iteration that starts with \<open>scrollCount = i\<close> observes\<close>
  "whileLoop dateParse targetDate opts feed s =
     (if loopCondition opts s then
        (case loopBody dateParse targetDate opts (feed (scrollCount s)) s of
           Throws e \<Rightarrow> Inl e
         | Break s' \<Rightarrow> Inr s'
         | Continue s' \<Rightarrow> whileLoop dateParse targetDate opts feed s')
      else Inr s)"
  by pat_completeness auto
termination
  by (relation "measure (\<lambda>(dateParse, targetDate, opts, feed, s). maxScrolls opts - scrollCount s)")
     (auto simp: loopCondition_def loopBody_def Let_def
           split: sum.splits prod.splits if_splits option.splits)

record collect_env =
  dateParse :: "string \<Rightarrow> jsdate"
  setupOutcome :: "error option"
  feed :: "nat \<Rightarrow> pass_obs"

definition initialState :: loop_state where
  "initialState = \<lparr> allLeads = [], scrollCount = 0, noNewLeadsCount = 0, reachedTargetDate = False \<rparr>"

definition scrapeLeadsUntilDate :: "collect_env \<Rightarrow> int \<Rightarrow> options \<Rightarrow> error + structured_lead list" where
  \<comment> \<open>\<open>setupOutcome\<close> is what the steps before the loop throw (the filters, the toggle, the waits);
      \<open>targetDate\<close> is a valid date, given by its time value\<close>
  "scrapeLeadsUntilDate env targetDate opts =
     (case setupOutcome env of
        Some e \<Rightarrow> Inl e
      | None \<Rightarrow>
          (case whileLoop (dateParse env) targetDate opts (feed env) initialState of
             Inl e \<Rightarrow> Inl e
           | Inr s \<Rightarrow> Inr (mapValues (allLeads s))))"

section \<open>The orchestrator and the route\<close>

text \<open>
  The argument of \<open>scrapeLeads\<close>: a key is \<open>None\<close> when the caller left it out, and the
  default of the destructuring applies.
\<close>

record scrape_options =
  opt_targetDate :: "jsdate option"
  opt_startDate :: "jsdate option"
  opt_maxLeads :: "nat option"
  opt_extractDetails :: "bool option"
  opt_status :: "string option"

text \<open>
  What the collaborators of \<open>scrapeLeads\<close> do in one run: each step throws an error or
  completes. \<open>clockAtStart\<close> and \<open>clockAtEnd\<close> are the clock read for the default
  target date and for the metadata.
\<close>

record scrape_env =
  clockAtStart :: int
  initializeSmartSelector :: "error option"
  createBrowser :: "error option"
  loginToTokko :: "error option"
  navigateToLeads :: "error option"
  applyDateFilter :: "error option"
  collection :: collect_env
  saveSession :: "error option"
  clockAtEnd :: int
  browserClose :: "error option"

record metadata =
  meta_scrapedAt :: int
  meta_targetDate :: int
  totalLeads :: nat

text \<open>
  The object \<open>scrapeLeads\<close> resolves with. A key the object literal does not have is
  \<open>None\<close>; \<open>isSessionClosed\<close> is the key the route reads.
\<close>

record scrape_result =
  success :: bool
  leads :: "structured_lead list"
  metadata :: "metadata option"
  error :: "string option"
  isSessionClosed :: "bool option"

definition tryBlock :: "scrape_env \<Rightarrow> scrape_options \<Rightarrow> bool \<times> (error + scrape_result)" where
  \<comment> \<open>the \<open>try\<close> of \<open>scrapeLeads\<close>: whether \<open>browser\<close> was assigned, and what the block
      throws or returns. \<open>targetDate.toISOString()\<close> throws on the invalid date.\<close>
  "tryBlock env opts =
     (let targetDate = (case opt_targetDate opts of
                          None \<Rightarrow> timeClip (clockAtStart env - 7 * 24 * 60 * 60 * 1000)
                        | Some d \<Rightarrow> d);
          maxLeads = (case opt_maxLeads opts of None \<Rightarrow> 10000 | Some n \<Rightarrow> n);
          extractDetails = (case opt_extractDetails opts of None \<Rightarrow> False | Some b \<Rightarrow> b)
      in
      case targetDate of
        InvalidDate \<Rightarrow> (False, Inl (Error ''Invalid time value''))
      | TimeValue t \<Rightarrow>
     (case initializeSmartSelector env of
        Some e \<Rightarrow> (False, Inl e)
      | None \<Rightarrow>
     (case createBrowser env of
        Some e \<Rightarrow> (False, Inl e)
      | None \<Rightarrow>
     (True,
      case loginToTokko env of
        Some e \<Rightarrow> Inl e
      | None \<Rightarrow>
     (case navigateToLeads env of
        Some e \<Rightarrow> Inl e
      | None \<Rightarrow>
     (case (if opt_startDate opts \<noteq> None then applyDateFilter env else None) of
        Some e \<Rightarrow> Inl e
      | None \<Rightarrow>
     (case scrapeLeadsUntilDate (collection env) t
             \<lparr> maxScrolls = 200, maxLeads = maxLeads, extractDetails = extractDetails \<rparr> of
        Inl e \<Rightarrow> Inl e
      | Inr ls \<Rightarrow>
     (case saveSession env of
        Some e \<Rightarrow> Inl e
      | None \<Rightarrow>
          Inr \<lparr> success = True, leads = ls,
                metadata = Some \<lparr> meta_scrapedAt = clockAtEnd env, meta_targetDate = t,
                                   totalLeads = length ls \<rparr>,
                error = None, isSessionClosed = None \<rparr>))))))))"

definition scrapeLeads :: "scrape_env \<Rightarrow> scrape_options \<Rightarrow> error + scrape_result" where
  \<comment> \<open>\<open>Inl\<close>: the promise is rejected. The \<open>catch\<close> turns what the \<open>try\<close> threw into a
      result; the \<open>finally\<close> closes the browser if there is one, outside any \<open>try\<close>.\<close>
  "scrapeLeads env opts =
     (let (browser, outcome) = tryBlock env opts;
          result = (case outcome of
                      Inr r \<Rightarrow> r
                    | Inl e \<Rightarrow> \<lparr> success = False, leads = [], metadata = None,
                                  error = Some (message e), isSessionClosed = None \<rparr>)
      in if browser then (case browserClose env of Some e \<Rightarrow> Inl e | None \<Rightarrow> Inr result)
         else Inr result)"

record request_body =
  body_targetDate :: "string option"
  body_startDate :: "string option"
  body_maxLeads :: "nat option"
  body_extractDetails :: "bool option"
  body_status :: "string option"

text \<open>The answer of the route: the status and the keys of the JSON object.\<close>

record response =
  statusCode :: nat
  res_success :: bool
  res_error :: "string option"
  res_code :: "string option"
  res_data :: "(structured_lead list \<times> metadata option) option"

definition validStatuses :: "string list" where
  "validStatuses = [''para_reasignacion'', ''sin_seguimiento'', ''pendiente_contactar'',
                    ''esperando_respuesta'', ''evolucionando'', ''tomar_accion'', ''congelado'',
                    ''all'']"

fun joinWith :: "string \<Rightarrow> string list \<Rightarrow> string" where
  "joinWith sep [] = []"
| "joinWith sep [x] = x"
| "joinWith sep (x # y # ys) = x @ sep @ joinWith sep (y # ys)"

definition sessionClosedResponse :: response where
  "sessionClosedResponse =
     \<lparr> statusCode = 500, res_success = False,
       res_error = Some (''Sesi'' @ [CHR 0xF3] @ ''n cerrada inesperadamente. Otro usuario se conect''
                         @ [CHR 0xF3] @ '' con las mismas credenciales. Por favor, intente de nuevo.''),
       res_code = Some ''SESSION_CLOSED'', res_data = None \<rparr>"

definition failed :: "nat \<Rightarrow> string \<Rightarrow> response" where
  "failed st msg = \<lparr> statusCode = st, res_success = False, res_error = Some msg,
                      res_code = None, res_data = None \<rparr>"

definition postScrape :: "scrape_env \<Rightarrow> request_body \<Rightarrow> response" where
  \<comment> \<open>\<open>router.post('/scrape')\<close>; \<open>new Date(string)\<close> is the parser of the runtime\<close>
  "postScrape env body =
     (case orOpt (body_targetDate body) None of
        None \<Rightarrow> failed 400 ''targetDate is required (format: YYYY-MM-DD)''
      | Some targetDate \<Rightarrow>
     (case dateParse (collection env) targetDate of
        InvalidDate \<Rightarrow> failed 400 ''Invalid targetDate format. Use YYYY-MM-DD''
      | TimeValue t \<Rightarrow>
     (let selectedStatus = orElse (body_status body) ''pendiente_contactar'' in
      if selectedStatus \<notin> set validStatuses
      then failed 400 (''Invalid status. Valid options: '' @ joinWith '', '' validStatuses)
      else
        (let opts = \<lparr> opt_targetDate = Some (TimeValue t),
                       opt_startDate = map_option (dateParse (collection env))
                                         (orOpt (body_startDate body) None),
                       opt_maxLeads = Some (case body_maxLeads body of
                                              None \<Rightarrow> 10000
                                            | Some n \<Rightarrow> if n = 0 then 10000 else n),
                       opt_extractDetails = Some (case body_extractDetails body of
                                                    None \<Rightarrow> False | Some b \<Rightarrow> b),
                       opt_status = Some selectedStatus \<rparr>
         in case scrapeLeads env opts of
              Inl e \<Rightarrow> failed 500 ''Internal server error''
            | Inr result \<Rightarrow>
                if success result
                then \<lparr> statusCode = 200, res_success = True, res_error = None, res_code = None,
                       res_data = Some (leads result, metadata result) \<rparr>
                else if isSessionClosed result = Some True then sessionClosedResponse
                else \<lparr> statusCode = 500, res_success = False, res_error = error result,
                       res_code = None, res_data = None \<rparr>))))"

section \<open>Notions used to state the properties\<close>

function passes ::
  "(string \<Rightarrow> jsdate) \<Rightarrow> int \<Rightarrow> options \<Rightarrow> (nat \<Rightarrow> pass_obs) \<Rightarrow> loop_state \<Rightarrow> nat" where
  \<comment> \<open>how many times the body of the \<open>while\<close> runs from state \<open>s\<close>: the recursion of
      \<open>whileLoop\<close>, counting\<close>
  "passes dp target opts fd s =
     (if loopCondition opts s then
        (case loopBody dp target opts (fd (scrollCount s)) s of
           Throws e \<Rightarrow> 1
         | Break s' \<Rightarrow> 1
         | Continue s' \<Rightarrow> Suc (passes dp target opts fd s'))
      else 0)"
  by pat_completeness auto
termination
  by (relation "measure (\<lambda>(dp, target, opts, fd, s). maxScrolls opts - scrollCount s)")
     (auto simp: loopCondition_def loopBody_def Let_def
           split: sum.splits prod.splits if_splits option.splits)

definition resolvedDate :: "(string \<Rightarrow> jsdate) \<Rightarrow> seen_lead \<Rightarrow> jsdate option" where
  \<comment> \<open>the date the loop resolves for a lead it examines\<close>
  "resolvedDate dp l = parseDate dp (clockAtParse l) (leadDateStr (lead l))"

definition seenIn :: "pass_obs \<Rightarrow> seen_lead set" where
  \<comment> \<open>the leads an iteration can examine: those of the scan and those of the last rescan\<close>
  "seenIn obs =
     (case visibleLeads obs of Inl e \<Rightarrow> {} | Inr ls \<Rightarrow> set ls)
     \<union> (case finalLeads obs of Inl e \<Rightarrow> {} | Inr ls \<Rightarrow> set ls)"

definition exportOf :: "seen_lead \<Rightarrow> structured_lead \<Rightarrow> bool" where
  \<comment> \<open>\<open>v\<close> is an object built from the lead \<open>l\<close>\<close>
  "exportOf l v =
     (contact_name v = orNull (contactName (lead l))
      \<and> property_address v = orNull (propertyAddress (lead l))
      \<and> lead_lastUpdated v = orNull (lastUpdated (lead l))
      \<and> scrapedAt v = clockAtStamp l)"

definition detailsNull :: "structured_lead \<Rightarrow> bool" where
  "detailsNull v =
     (contact_email v = Null \<and> contact_phone v = Null \<and> contact_cellPhone v = Null
      \<and> property_id v = Null)"

definition keysOf :: "store \<Rightarrow> string set" where
  "keysOf m = fst ` set m"

subsection \<open>Sample runs\<close>

text \<open>
  A row of the table as the loop sees it: the lead the row parser makes of its text, with
  the clock at \<open>now\<close> and the answers \<open>pr\<close> and \<open>ci\<close> of the two extractions.
\<close>

definition seenRow ::
  "string \<Rightarrow> int \<Rightarrow> error + property_result \<Rightarrow> error + contact_info \<Rightarrow> seen_lead list" where
  "seenRow row now pr ci =
     (case parseLeadFromText (Some row) of
        None \<Rightarrow> []
      | Some l \<Rightarrow> [\<lparr> lead = l, clockAtParse = now, propertyDetails = pr, contactDetails = ci,
                     clockAtStamp = now \<rparr>])"

definition plainRow :: "string \<Rightarrow> seen_lead list" where
  \<comment> \<open>a row seen on 30 November 2025 whose link and contact yield no details\<close>
  "plainRow row = seenRow row 1764500000000 (Inr Unmodified) (Inr noContactInfo)"

definition rejectSlashDates :: "string \<Rightarrow> jsdate" where
  \<comment> \<open>a parser of the runtime on the strings of the sample runs: it reads the ISO date
      \<open>2025-01-01\<close> and rejects the rest, dates with a day above 12 before the first slash\<close>
  "rejectSlashDates s = (if s = ''2025-01-01'' then TimeValue 1735689600000 else InvalidDate)"

definition cutoff2025 :: int where
  \<comment> \<open>1 January 2025\<close>
  "cutoff2025 = 1735689600000"

definition endOfScroll :: "error + scroll_result" where
  "endOfScroll = Inr \<lparr> newScroll = 1000, maxScroll = 1000 \<rparr>"

definition quietPass :: pass_obs where
  \<comment> \<open>an iteration that sees no row and can scroll on\<close>
  "quietPass = \<lparr> url = ''https://www.tokkobroker.com/leads/'', visibleLeads = Inr [],
                 scrollResult = Inr \<lparr> newScroll = 500, maxScroll = 1000 \<rparr>,
                 finalIdle = None, finalLeads = Inr [] \<rparr>"

definition onePass :: "pass_obs \<Rightarrow> collect_env" where
  \<comment> \<open>a run whose first iteration observes \<open>obs\<close>\<close>
  "onePass obs = \<lparr> dateParse = rejectSlashDates, setupOutcome = None,
                    feed = (\<lambda>i. if i = 0 then obs else quietPass) \<rparr>"

definition overflowPass :: pass_obs where
  \<comment> \<open>one row is visible, the scroll reaches the end, and the last rescan sees two more\<close>
  "overflowPass =
     \<lparr> url = ''https://www.tokkobroker.com/leads/'',
       visibleLeads = Inr (plainRow ''Ana Paz (Bea Gil) Lavalle 300 26/11/2025 08:15''),
       scrollResult = endOfScroll,
       finalIdle = None,
       finalLeads = Inr (plainRow ''Ana Paz (Bea Gil) Lavalle 300 26/11/2025 08:15''
                         @ plainRow ''Carla Diaz (Bea Gil) Maipu 12 25/11/2025 10:00''
                         @ plainRow ''Dora Ruiz (Bea Gil) Salta 9 24/11/2025 11:00'') \<rparr>"

definition sameContactPass :: pass_obs where
  \<comment> \<open>two rows of one contact are visible at once: the first yields a property id and an
      email, the second yields nothing\<close>
  "sameContactPass =
     \<lparr> url = ''https://www.tokkobroker.com/leads/'',
       visibleLeads = Inr (seenRow ''Ana Paz (Bea Gil) Lavalle 300 26/11/2025 08:15'' 1764500000000
                             (Inr (Modal (Some ''AAP7427642'') (Some ''Bea Gil'')))
                             (Inr \<lparr> email = Some ''ana@mail.com'', phone = None,
                                    cellPhone = Some ''+5491112345678'' \<rparr>)
                           @ plainRow ''Ana Paz (Bea Gil) Maipu 12 25/11/2025 10:00''),
       scrollResult = endOfScroll,
       finalIdle = None,
       finalLeads = Inr [] \<rparr>"

definition firstRowOnlyPass :: pass_obs where
  \<comment> \<open>\<open>sameContactPass\<close> without its second row\<close>
  "firstRowOnlyPass =
     sameContactPass \<lparr> visibleLeads :=
       Inr (seenRow ''Ana Paz (Bea Gil) Lavalle 300 26/11/2025 08:15'' 1764500000000
              (Inr (Modal (Some ''AAP7427642'') (Some ''Bea Gil'')))
              (Inr \<lparr> email = Some ''ana@mail.com'', phone = None,
                     cellPhone = Some ''+5491112345678'' \<rparr>)) \<rparr>"

definition oldRowInRescanPass :: pass_obs where
  \<comment> \<open>the last rescan sees a row of 2020 and, after it, a row with no date\<close>
  "oldRowInRescanPass =
     \<lparr> url = ''https://www.tokkobroker.com/leads/'',
       visibleLeads = Inr (plainRow ''Ana Paz (Bea Gil) Lavalle 300 26/11/2025 08:15''),
       scrollResult = endOfScroll,
       finalIdle = None,
       finalLeads = Inr (plainRow ''Ana Paz (Bea Gil) Lavalle 300 26/11/2025 08:15''
                         @ plainRow ''Carla Diaz (Bea Gil) Maipu 12 15/01/2020 09:00''
                         @ plainRow ''Dora Ruiz (Bea Gil) Salta 9'') \<rparr>"

definition oldRowInScanPass :: pass_obs where
  \<comment> \<open>the scan sees a recent row, a row of 2020 and, after it, a row with no date\<close>
  "oldRowInScanPass =
     \<lparr> url = ''https://www.tokkobroker.com/leads/'',
       visibleLeads = Inr (plainRow ''Ana Paz (Bea Gil) Lavalle 300 26/11/2025 08:15''
                           @ plainRow ''Carla Diaz (Bea Gil) Maipu 12 15/01/2020 09:00''
                           @ plainRow ''Dora Ruiz (Bea Gil) Salta 9''),
       scrollResult = endOfScroll,
       finalIdle = None,
       finalLeads = Inr [] \<rparr>"

definition disconnectedPass :: pass_obs where
  \<comment> \<open>the page has been sent to the "not connected" address\<close>
  "disconnectedPass = quietPass \<lparr> url := ''https://www.tokkobroker.com/not_connected'' \<rparr>"

definition sampleRun :: "pass_obs \<Rightarrow> error option \<Rightarrow> scrape_env" where
  \<comment> \<open>a run of \<open>scrapeLeads\<close> in which every step but the collection and, with
      \<open>closing\<close>, the closing of the browser completes\<close>
  "sampleRun obs closing =
     \<lparr> clockAtStart = 1764500000000, initializeSmartSelector = None, createBrowser = None,
       loginToTokko = None, navigateToLeads = None, applyDateFilter = None,
       collection = onePass obs, saveSession = None, clockAtEnd = 1764500600000,
       browserClose = closing \<rparr>"

definition sampleRequest :: request_body where
  "sampleRequest = \<lparr> body_targetDate = Some ''2025-01-01'', body_startDate = None,
                      body_maxLeads = None, body_extractDetails = None, body_status = None \<rparr>"

section \<open>Properties of the row parser and of the identity key\<close>

lemma js_trim_take: "js_trim s = take (length (js_trim s)) (dropWhile isWhiteSpace s)"
proof -
  let ?u = "dropWhile isWhiteSpace s"
  have "js_trim s = rev (drop (length (takeWhile isWhiteSpace (rev ?u))) (rev ?u))"
    by (simp add: js_trim_def dropWhile_eq_drop)
  also have "\<dots> = take (length ?u - length (takeWhile isWhiteSpace (rev ?u))) ?u"
    by (simp add: rev_drop)
  finally have e: "js_trim s = take (length ?u - length (takeWhile isWhiteSpace (rev ?u))) ?u" .
  then have "length (js_trim s) = length ?u - length (takeWhile isWhiteSpace (rev ?u))"
    by simp
  with e show ?thesis by simp
qed

lemma js_trim_hd: "js_trim s \<noteq> [] \<Longrightarrow> \<not> isWhiteSpace (hd (js_trim s))"
proof -
  assume ne: "js_trim s \<noteq> []"
  let ?u = "dropWhile isWhiteSpace s"
  have t: "js_trim s = take (length (js_trim s)) ?u" by (rule js_trim_take)
  have u: "?u \<noteq> []"
  proof
    assume "?u = []"
    with t have "js_trim s = []" by simp
    with ne show False by simp
  qed
  from ne have "0 < length (js_trim s)" by simp
  with t have "hd (js_trim s) = hd ?u" by (metis hd_take)
  moreover from u have "\<not> isWhiteSpace (hd ?u)" by (rule hd_dropWhile)
  ultimately show ?thesis by simp
qed

lemma js_trim_nonempty: "s \<noteq> [] \<Longrightarrow> \<not> isWhiteSpace (hd s) \<Longrightarrow> js_trim s \<noteq> []"
proof -
  assume ne: "s \<noteq> []" and h: "\<not> isWhiteSpace (hd s)"
  then have d: "dropWhile isWhiteSpace s = s" by (cases s) auto
  from ne h have "hd s \<in> set (rev s)" by simp
  with h have "dropWhile isWhiteSpace (rev s) \<noteq> []"
    by (auto simp: dropWhile_eq_Nil_conv)
  with d show ?thesis by (simp add: js_trim_def)
qed

lemma contactMatch_group1:
  "contactMatch s = Some (g1, g2) \<Longrightarrow> g1 \<noteq> [] \<and> hd g1 = hd s \<and> s \<noteq> []"
  by (cases s) (auto simp: contactMatch_def Let_def split: if_splits list.splits)

lemma contactMatch_name_nonempty:
  assumes "contactMatch (js_trim u) = Some (g1, g2)"
  shows "js_trim g1 \<noteq> []"
proof -
  from assms have g: "g1 \<noteq> []" "hd g1 = hd (js_trim u)" "js_trim u \<noteq> []"
    using contactMatch_group1 by blast+
  then have "\<not> isWhiteSpace (hd g1)" using js_trim_hd by simp
  with g(1) show ?thesis by (rule js_trim_nonempty)
qed

lemma split_at_first:
  assumes "\<forall>y\<in>set xs. P y" and "\<not> P x"
  shows "takeWhile P (xs @ x # l) = xs" and "dropWhile P (xs @ x # l) = x # l"
  using assms by (induction xs) auto

lemma contactMatch_iff:
  "contactMatch s = Some (g1, g2)
     \<longleftrightarrow> (\<exists>rest. s = g1 @ ''('' @ g2 @ '')'' @ rest
                \<and> g1 \<noteq> [] \<and> CHR ''('' \<notin> set g1 \<and> g2 \<noteq> [] \<and> CHR '')'' \<notin> set g2)"
proof
  assume m: "contactMatch s = Some (g1, g2)"
  let ?P = "\<lambda>c. c \<noteq> CHR ''(''" and ?Q = "\<lambda>c. c \<noteq> CHR '')''"
  from m have g1: "g1 = takeWhile ?P s" "g1 \<noteq> []"
    by (auto simp: contactMatch_def Let_def split: if_splits list.splits)
  from m obtain c r' where r: "dropWhile ?P s = c # r'"
    and g2: "g2 = takeWhile ?Q r'" "g2 \<noteq> []" and r2: "dropWhile ?Q r' \<noteq> []"
    by (auto simp: contactMatch_def Let_def split: if_splits list.splits)
  from r hd_dropWhile [of ?P s] have c: "c = CHR ''(''" by simp
  from r2 obtain c2 rest where r2': "dropWhile ?Q r' = c2 # rest" by (cases "dropWhile ?Q r'") auto
  with hd_dropWhile [of ?Q r'] have c2: "c2 = CHR '')''" by simp
  have "s = takeWhile ?P s @ dropWhile ?P s" by simp
  also have "\<dots> = g1 @ CHR ''('' # (takeWhile ?Q r' @ dropWhile ?Q r')" using g1 r c by simp
  also have "\<dots> = g1 @ ''('' @ g2 @ '')'' @ rest" using g2 r2' c2 by simp
  finally have "s = g1 @ ''('' @ g2 @ '')'' @ rest" .
  moreover from g1 have "CHR ''('' \<notin> set g1" by (auto dest: set_takeWhileD)
  moreover from g2 have "CHR '')'' \<notin> set g2" by (auto dest: set_takeWhileD)
  ultimately show "\<exists>rest. s = g1 @ ''('' @ g2 @ '')'' @ rest
                \<and> g1 \<noteq> [] \<and> CHR ''('' \<notin> set g1 \<and> g2 \<noteq> [] \<and> CHR '')'' \<notin> set g2"
    using g1(2) g2(2) by blast
next
  assume "\<exists>rest. s = g1 @ ''('' @ g2 @ '')'' @ rest
                \<and> g1 \<noteq> [] \<and> CHR ''('' \<notin> set g1 \<and> g2 \<noteq> [] \<and> CHR '')'' \<notin> set g2"
  then obtain rest where s: "s = g1 @ CHR ''('' # (g2 @ CHR '')'' # rest)"
    and n1: "g1 \<noteq> []" "\<forall>y\<in>set g1. y \<noteq> CHR ''(''"
    and n2: "g2 \<noteq> []" "\<forall>y\<in>set g2. y \<noteq> CHR '')''"
    by auto
  from n1(2) have t1: "takeWhile (\<lambda>c. c \<noteq> CHR ''('') s = g1"
    and d1: "dropWhile (\<lambda>c. c \<noteq> CHR ''('') s = CHR ''('' # (g2 @ CHR '')'' # rest)"
    unfolding s by (simp_all add: split_at_first)
  from n2(2) have t2: "takeWhile (\<lambda>c. c \<noteq> CHR '')'') (g2 @ CHR '')'' # rest) = g2"
    and d2: "dropWhile (\<lambda>c. c \<noteq> CHR '')'') (g2 @ CHR '')'' # rest) = CHR '')'' # rest"
    by (simp_all add: split_at_first)
  from t1 d1 t2 d2 n1(1) n2(1) show "contactMatch s = Some (g1, g2)"
    by (simp add: contactMatch_def Let_def)
qed

lemma parseLeadFromText_cases:
  "(parseLeadFromText row \<noteq> None
      \<longleftrightarrow> (\<exists>t. row = Some t \<and> contactMatch (js_trim (collapseWhiteSpace t)) \<noteq> None))
   \<and> (\<forall>l. parseLeadFromText row = Some l \<longrightarrow>
         (\<exists>t g1 g2. row = Some t
            \<and> contactMatch (js_trim (collapseWhiteSpace t)) = Some (g1, g2)
            \<and> contactName l = Some (js_trim g1) \<and> js_trim g1 \<noteq> []
            \<and> underscore_agentName l = Some (js_trim g2)
            \<and> lastUpdated l = searchRe dateTimeAt (js_trim (collapseWhiteSpace t))
            \<and> (lastUpdated l = None \<longrightarrow> propertyAddress l = None)
            \<and> propertyAddress l =
                (case searchRe dateTimeAt (js_trim (collapseWhiteSpace t)) of
                   None \<Rightarrow> None
                 | Some d \<Rightarrow>
                     if js_indexOf (js_trim (collapseWhiteSpace t)) '')'' + 1 > 0
                        \<and> js_indexOf (js_trim (collapseWhiteSpace t)) d
                            > js_indexOf (js_trim (collapseWhiteSpace t)) '')'' + 1
                     then Some (js_trim (dropWhile (\<lambda>c. isWhiteSpace c \<or> c = CHR ''@'')
                                  (js_trim (js_substring (js_trim (collapseWhiteSpace t))
                                     (js_indexOf (js_trim (collapseWhiteSpace t)) '')'' + 1)
                                     (js_indexOf (js_trim (collapseWhiteSpace t)) d)))))
                     else None)))"
proof (cases row)
  case None
  then show ?thesis by (simp add: parseLeadFromText_def)
next
  case (Some t)
  show ?thesis
  proof (cases "contactMatch (js_trim (collapseWhiteSpace t))")
    case None
    then have "t = [] \<or> parseLeadFromText row = None"
      using Some by (simp add: parseLeadFromText_def Let_def)
    moreover have "t = [] \<Longrightarrow> parseLeadFromText row = None"
      using Some by (simp add: parseLeadFromText_def)
    ultimately have "parseLeadFromText row = None" by blast
    with None Some show ?thesis by simp
  next
    case (Some p)
    obtain g1 g2 where p: "p = (g1, g2)" by (cases p)
    with Some have cm: "contactMatch (js_trim (collapseWhiteSpace t)) = Some (g1, g2)" by simp
    then have ne: "js_trim g1 \<noteq> []" by (rule contactMatch_name_nonempty)
    have tne: "t \<noteq> []"
    proof
      assume "t = []"
      with cm show False by (simp add: contactMatch_def js_trim_def)
    qed
    from cm ne tne \<open>row = Some t\<close> show ?thesis
      by (auto simp: parseLeadFromText_def Let_def split: option.splits)
  qed
qed


text \<open>
  Claim C5, as the code has it. \<open>parseLeadFromText\<close> is a total function: no row text makes
  it throw. A row yields a lead exactly when its cleaned text starts with the pattern
  \<open>Name (Agent)\<close>: a name that is not empty and has no opening parenthesis, an opening
  parenthesis, an agent that is not empty and has no closing parenthesis, a closing
  parenthesis. The contact name of the lead is then not empty, and neither a missing date
  nor a missing address blocks the lead. A missing date leaves \<open>lastUpdated\<close> and
  \<open>propertyAddress\<close> at \<open>null\<close>. With a date, \<open>propertyAddress\<close> is \<open>null\<close> only if the date
  does not start beyond the position after the first closing parenthesis; otherwise it is
  the text between the two, trimmed and without leading \<open>@\<close>: for a row whose date follows
  the agent after a space and no address, that is the empty string, not \<open>null\<close>. The agent
  of the lead is the trimmed text in the parentheses, the empty string if it is white space.
  The contact name is found only through that pattern, so a row without the parenthesised
  agent yields no lead.
\<close>

theorem parseLeadFromText_lead_iff_contact_pattern:
  "(parseLeadFromText row \<noteq> None
      \<longleftrightarrow> (\<exists>t name agent rest.
             row = Some t
             \<and> js_trim (collapseWhiteSpace t) = name @ ''('' @ agent @ '')'' @ rest
             \<and> name \<noteq> [] \<and> CHR ''('' \<notin> set name \<and> agent \<noteq> [] \<and> CHR '')'' \<notin> set agent))
   \<and> (\<forall>l. parseLeadFromText row = Some l \<longrightarrow>
         (\<exists>t g1 g2. row = Some t
            \<and> contactMatch (js_trim (collapseWhiteSpace t)) = Some (g1, g2)
            \<and> contactName l = Some (js_trim g1) \<and> js_trim g1 \<noteq> []
            \<and> underscore_agentName l = Some (js_trim g2)
            \<and> lastUpdated l = searchRe dateTimeAt (js_trim (collapseWhiteSpace t))
            \<and> (lastUpdated l = None \<longrightarrow> propertyAddress l = None)
            \<and> propertyAddress l =
                (case searchRe dateTimeAt (js_trim (collapseWhiteSpace t)) of
                   None \<Rightarrow> None
                 | Some d \<Rightarrow>
                     if js_indexOf (js_trim (collapseWhiteSpace t)) '')'' + 1 > 0
                        \<and> js_indexOf (js_trim (collapseWhiteSpace t)) d
                            > js_indexOf (js_trim (collapseWhiteSpace t)) '')'' + 1
                     then Some (js_trim (dropWhile (\<lambda>c. isWhiteSpace c \<or> c = CHR ''@'')
                                  (js_trim (js_substring (js_trim (collapseWhiteSpace t))
                                     (js_indexOf (js_trim (collapseWhiteSpace t)) '')'' + 1)
                                     (js_indexOf (js_trim (collapseWhiteSpace t)) d)))))
                     else None)))
   \<and> map_option propertyAddress (parseLeadFromText (Some ''Ana Paz (Bea Gil) 26/11/2025 08:15''))
       = Some (Some [])
   \<and> map_option propertyAddress (parseLeadFromText (Some ''Ana Paz (Bea Gil)26/11/2025 08:15''))
       = Some None
   \<and> map_option underscore_agentName (parseLeadFromText (Some ''Ana Paz ( ) Lavalle 300''))
       = Some (Some [])"
proof -
  have pat: "contactMatch c \<noteq> None
               \<longleftrightarrow> (\<exists>name agent rest. c = name @ ''('' @ agent @ '')'' @ rest
                      \<and> name \<noteq> [] \<and> CHR ''('' \<notin> set name \<and> agent \<noteq> [] \<and> CHR '')'' \<notin> set agent)"
    for c
  proof -
    have "contactMatch c \<noteq> None \<longleftrightarrow> (\<exists>name agent. contactMatch c = Some (name, agent))"
      by auto
    also have "\<dots> \<longleftrightarrow> (\<exists>name agent rest. c = name @ ''('' @ agent @ '')'' @ rest
                      \<and> name \<noteq> [] \<and> CHR ''('' \<notin> set name \<and> agent \<noteq> [] \<and> CHR '')'' \<notin> set agent)"
      unfolding contactMatch_iff by blast
    finally show ?thesis .
  qed
  note a = parseLeadFromText_cases [of row, THEN conjunct1]
  note b = parseLeadFromText_cases [of row, THEN conjunct2]
  have c: "parseLeadFromText row \<noteq> None
      \<longleftrightarrow> (\<exists>t name agent rest.
             row = Some t
             \<and> js_trim (collapseWhiteSpace t) = name @ ''('' @ agent @ '')'' @ rest
             \<and> name \<noteq> [] \<and> CHR ''('' \<notin> set name \<and> agent \<noteq> [] \<and> CHR '')'' \<notin> set agent)"
    unfolding a pat by blast
  have d: "map_option propertyAddress (parseLeadFromText (Some ''Ana Paz (Bea Gil) 26/11/2025 08:15''))
       = Some (Some [])"
    by code_simp
  have e: "map_option propertyAddress (parseLeadFromText (Some ''Ana Paz (Bea Gil)26/11/2025 08:15''))
       = Some None"
    by code_simp
  have f: "map_option underscore_agentName (parseLeadFromText (Some ''Ana Paz ( ) Lavalle 300''))
       = Some (Some [])"
    by code_simp
  from c b d e f show ?thesis by (intro conjI)
qed

theorem parseLeadFromText_lead_iff_contact_pattern_witness:
  "(\<exists>l. parseLeadFromText (Some ''Ana Paz (Bea Gil) Lavalle 300'') = Some l
       \<and> contactName l = Some ''Ana Paz'' \<and> lastUpdated l = None \<and> propertyAddress l = None)
   \<and> (\<exists>l. parseLeadFromText (Some ''Ana Paz (Bea Gil) 26/11/2025 08:15'') = Some l
          \<and> lastUpdated l = Some ''26/11/2025 08:15'' \<and> propertyAddress l = Some [])"
proof -
  let ?row = "Some ''Ana Paz (Bea Gil) Lavalle 300''"
  let ?clean = "js_trim (collapseWhiteSpace ''Ana Paz (Bea Gil) Lavalle 300'')"
  have cl: "?clean = ''Ana Paz '' @ ''('' @ ''Bea Gil'' @ '')'' @ '' Lavalle 300''"
    by code_simp
  have cm: "contactMatch ?clean = Some (''Ana Paz '', ''Bea Gil'')"
    by code_simp
  have nm: "js_trim ''Ana Paz '' = ''Ana Paz''" by code_simp
  have dt: "searchRe dateTimeAt ?clean = None"
    by code_simp
  note at_row = parseLeadFromText_lead_iff_contact_pattern [of ?row]
  note lead_iff = at_row [THEN conjunct1]
  note lead_fields = at_row [THEN conjunct2, THEN conjunct1, rule_format]
  have "\<exists>t name agent rest.
             ?row = Some t
             \<and> js_trim (collapseWhiteSpace t) = name @ ''('' @ agent @ '')'' @ rest
             \<and> name \<noteq> [] \<and> CHR ''('' \<notin> set name \<and> agent \<noteq> [] \<and> CHR '')'' \<notin> set agent"
  proof (intro exI conjI)
    show "?row = Some ''Ana Paz (Bea Gil) Lavalle 300''" by simp
    show "?clean = ''Ana Paz '' @ ''('' @ ''Bea Gil'' @ '')'' @ '' Lavalle 300''" by (rule cl)
  qed simp_all
  with lead_iff have "parseLeadFromText ?row \<noteq> None" by (rule iffD2)
  then obtain l where l: "parseLeadFromText ?row = Some l" by blast
  from lead_fields [OF l] obtain t g1 g2 where
    t: "?row = Some t"
    and g: "contactMatch (js_trim (collapseWhiteSpace t)) = Some (g1, g2)"
    and cn: "contactName l = Some (js_trim g1)"
    and lu: "lastUpdated l = searchRe dateTimeAt (js_trim (collapseWhiteSpace t))"
    and pa: "lastUpdated l = None \<longrightarrow> propertyAddress l = None"
    by (elim exE conjE) (rule that)
  from t have t': "t = ''Ana Paz (Bea Gil) Lavalle 300''" by simp
  from g [unfolded t' cm] have g1: "g1 = ''Ana Paz ''" by simp
  from cn have n1: "contactName l = Some ''Ana Paz''" unfolding g1 nm .
  from lu have n2: "lastUpdated l = None" unfolding t' dt .
  with pa have n3: "propertyAddress l = None" by blast
  from l n1 n2 n3 have first:
    "\<exists>l. parseLeadFromText (Some ''Ana Paz (Bea Gil) Lavalle 300'') = Some l
       \<and> contactName l = Some ''Ana Paz'' \<and> lastUpdated l = None \<and> propertyAddress l = None"
    by blast
  let ?row2 = "Some ''Ana Paz (Bea Gil) 26/11/2025 08:15''"
  let ?clean2 = "js_trim (collapseWhiteSpace ''Ana Paz (Bea Gil) 26/11/2025 08:15'')"
  note fields2 = parseLeadFromText_lead_iff_contact_pattern
                   [of ?row2, THEN conjunct2, THEN conjunct1, rule_format]
  have "(case parseLeadFromText ?row2 of None \<Rightarrow> False | Some l \<Rightarrow> True)" by code_simp
  then obtain l2 where l2: "parseLeadFromText ?row2 = Some l2"
    by (cases "parseLeadFromText ?row2") simp_all
  have dt2: "searchRe dateTimeAt ?clean2 = Some ''26/11/2025 08:15''" by code_simp
  have ad2:
    "(case searchRe dateTimeAt ?clean2 of
        None \<Rightarrow> None
      | Some d \<Rightarrow>
          if js_indexOf ?clean2 '')'' + 1 > 0 \<and> js_indexOf ?clean2 d > js_indexOf ?clean2 '')'' + 1
          then Some (js_trim (dropWhile (\<lambda>c. isWhiteSpace c \<or> c = CHR ''@'')
                       (js_trim (js_substring ?clean2 (js_indexOf ?clean2 '')'' + 1)
                          (js_indexOf ?clean2 d)))))
          else None) = Some []"
    by code_simp
  from fields2 [OF l2] obtain t2 where
    t2: "?row2 = Some t2"
    and lu2: "lastUpdated l2 = searchRe dateTimeAt (js_trim (collapseWhiteSpace t2))"
    and pa2: "propertyAddress l2 =
        (case searchRe dateTimeAt (js_trim (collapseWhiteSpace t2)) of
           None \<Rightarrow> None
         | Some d \<Rightarrow>
             if js_indexOf (js_trim (collapseWhiteSpace t2)) '')'' + 1 > 0
                \<and> js_indexOf (js_trim (collapseWhiteSpace t2)) d
                    > js_indexOf (js_trim (collapseWhiteSpace t2)) '')'' + 1
             then Some (js_trim (dropWhile (\<lambda>c. isWhiteSpace c \<or> c = CHR ''@'')
                          (js_trim (js_substring (js_trim (collapseWhiteSpace t2))
                             (js_indexOf (js_trim (collapseWhiteSpace t2)) '')'' + 1)
                             (js_indexOf (js_trim (collapseWhiteSpace t2)) d)))))
             else None)"
    by (elim exE conjE) (rule that)
  from t2 have t2': "t2 = ''Ana Paz (Bea Gil) 26/11/2025 08:15''" by simp
  from lu2 have m1: "lastUpdated l2 = Some ''26/11/2025 08:15''" unfolding t2' dt2 .
  from pa2 have m2: "propertyAddress l2 = Some []" unfolding t2' ad2 .
  from l2 m1 m2 have second:
    "\<exists>l. parseLeadFromText (Some ''Ana Paz (Bea Gil) 26/11/2025 08:15'') = Some l
          \<and> lastUpdated l = Some ''26/11/2025 08:15'' \<and> propertyAddress l = Some []"
    by blast
  show ?thesis by (intro conjI) (rule first second)+
qed

text \<open>
  Claim C5 as stated fails on a row that bears a contact name, an address and a date but no
  agent in parentheses: the missing agent blocks the lead.
\<close>

theorem parseLeadFromText_missing_agent_counterexample:
  "parseLeadFromText (Some ''Juan Perez Colombres 148 2 26/11/2025 08:15'') = None"
  by code_simp

text \<open>
  \<open>getLeadKey\<close> reads \<open>propertyName\<close> and \<open>vigencia\<close>, keys the row parser never sets: the
  key of a lead that comes from the row parser is its contact name in lower case and two
  hyphens.
\<close>

lemma parsed_lead_keys:
  "parseLeadFromText row = Some l \<Longrightarrow> propertyName l = None \<and> vigencia l = None"
  by (cases row) (auto simp: parseLeadFromText_def Let_def split: option.splits if_splits)

lemma getLeadKey_of_parsed:
  "parseLeadFromText row = Some l \<Longrightarrow>
     getLeadKey l = js_toLowerCase (orElse (contactName l) []) @ ''--''"
  using parsed_lead_keys [of row l]
  by (simp add: getLeadKey_def orElse_def js_toLowerCase_def lowerChar_def)

text \<open>
  Claim C2 at two rows of the same contact that differ in the address and in the time
  stamp: both leads get the key of the contact name alone.
\<close>

theorem getLeadKey_same_key_for_different_rows:
  "map_option getLeadKey (parseLeadFromText (Some ''Juan Perez (Ana Gomez) Colombres 148 2 26/11/2025 08:15''))
     = Some ''juan perez--''
   \<and> map_option getLeadKey (parseLeadFromText (Some ''Juan Perez (Ana Gomez) Lavalle 300 27/11/2025 09:30''))
     = Some ''juan perez--''
   \<and> map_option propertyAddress (parseLeadFromText (Some ''Juan Perez (Ana Gomez) Colombres 148 2 26/11/2025 08:15''))
     = Some (Some ''Colombres 148 2'')
   \<and> map_option propertyAddress (parseLeadFromText (Some ''Juan Perez (Ana Gomez) Lavalle 300 27/11/2025 09:30''))
     = Some (Some ''Lavalle 300'')
   \<and> map_option lastUpdated (parseLeadFromText (Some ''Juan Perez (Ana Gomez) Colombres 148 2 26/11/2025 08:15''))
     = Some (Some ''26/11/2025 08:15'')
   \<and> map_option lastUpdated (parseLeadFromText (Some ''Juan Perez (Ana Gomez) Lavalle 300 27/11/2025 09:30''))
     = Some (Some ''27/11/2025 09:30'')"
  by code_simp

section \<open>Properties of the date resolver\<close>

lemma parseDate_rules:
  assumes "s \<noteq> []"
  shows "parseDate dp now (Some s) =
           (case relativeRule now (js_toLowerCase (js_trim s)) of
              Some d \<Rightarrow> Some d
            | None \<Rightarrow>
                (case haceRule now (js_toLowerCase (js_trim s)) of
                   Some d \<Rightarrow> Some d
                 | None \<Rightarrow>
                     (case standardRule dp s of Some d \<Rightarrow> Some d | None \<Rightarrow> ddmmyyyyRule s)))"
  using assms by (simp add: parseDate_def Let_def)

text \<open>
  Claim C4, as the code has it, for every parser \<open>dp\<close> of the runtime and every reading
  \<open>now\<close> of the clock. "8 anos 182 dias" (spelt with n tilde and accented i) resolves to \<open>now\<close> minus \<open>8 * 365 + 182\<close> days and
  "hace 3 horas" to \<open>now\<close> minus 3 hours (the invalid date if that leaves the range of a
  \<open>Date\<close>). "26/11/2025 08:15", which the parser of the runtime rejects, resolves through
  the last rule to local midnight of 26 November 2025: that rule reads the day, the month
  and the year, and not the time of day. No string makes the function throw; the absent
  and the empty string resolve to \<open>null\<close>. The four rules are tried in the order relative
  duration, "hace", parser of the runtime, \<open>DD/MM/YYYY\<close>; the first that matches wins, and a
  string that none matches resolves to \<open>null\<close>.
\<close>

theorem parseDate_oracle:
  "parseDate dp now (Some (''8 '' @ anyo @ ''s 182 '' @ dia @ ''s''))
     = Some (timeClip (now - (8 * 365 + 182) * msPerDay))
   \<and> parseDate dp now (Some ''hace 3 horas'') = Some (timeClip (now - 3 * msPerHour))
   \<and> (dp ''26/11/2025 08:15'' = InvalidDate \<longrightarrow>
        parseDate dp now (Some ''26/11/2025 08:15'') = Some (newDate 2025 10 26))
   \<and> parseDate dp now None = None
   \<and> parseDate dp now (Some []) = None
   \<and> (s \<noteq> [] \<longrightarrow>
        (\<forall>d. relativeRule now (js_toLowerCase (js_trim s)) = Some d \<longrightarrow>
               parseDate dp now (Some s) = Some d)
        \<and> (relativeRule now (js_toLowerCase (js_trim s)) = None \<longrightarrow>
             (\<forall>d. haceRule now (js_toLowerCase (js_trim s)) = Some d \<longrightarrow>
                    parseDate dp now (Some s) = Some d)
             \<and> (haceRule now (js_toLowerCase (js_trim s)) = None \<longrightarrow>
                  (\<forall>t. dp s = TimeValue t \<longrightarrow> parseDate dp now (Some s) = Some (TimeValue t))
                  \<and> (dp s = InvalidDate \<longrightarrow>
                       parseDate dp now (Some s) = ddmmyyyyRule s
                       \<and> (searchRe ddmmyyyyAt s = None \<longrightarrow> parseDate dp now (Some s) = None)))))"
proof -
  have a: "parseDate dp now (Some (''8 '' @ anyo @ ''s 182 '' @ dia @ ''s''))
             = Some (timeClip (now - (8 * 365 + 182) * msPerDay))"
    by code_simp
  have b: "parseDate dp now (Some ''hace 3 horas'') = Some (timeClip (now - 3 * msPerHour))"
    by code_simp
  have c: "parseDate dp now (Some ''26/11/2025 08:15'') = Some (newDate 2025 10 26)"
    if "dp ''26/11/2025 08:15'' = InvalidDate"
  proof -
    have r: "relativeRule now (js_toLowerCase (js_trim ''26/11/2025 08:15'')) = None" by code_simp
    have h: "haceRule now (js_toLowerCase (js_trim ''26/11/2025 08:15'')) = None" by code_simp
    have d: "ddmmyyyyRule ''26/11/2025 08:15'' = Some (newDate 2025 10 26)" by code_simp
    from that have st: "standardRule dp ''26/11/2025 08:15'' = None"
      by (simp add: standardRule_def)
    have "''26/11/2025 08:15'' \<noteq> []" by simp
    from parseDate_rules [OF this, of dp now] r h st d show ?thesis by simp
  qed
  have n: "parseDate dp now None = None" "parseDate dp now (Some []) = None"
    by (simp_all add: parseDate_def)
  have o: "(\<forall>d. relativeRule now (js_toLowerCase (js_trim s)) = Some d \<longrightarrow>
               parseDate dp now (Some s) = Some d)
        \<and> (relativeRule now (js_toLowerCase (js_trim s)) = None \<longrightarrow>
             (\<forall>d. haceRule now (js_toLowerCase (js_trim s)) = Some d \<longrightarrow>
                    parseDate dp now (Some s) = Some d)
             \<and> (haceRule now (js_toLowerCase (js_trim s)) = None \<longrightarrow>
                  (\<forall>t. dp s = TimeValue t \<longrightarrow> parseDate dp now (Some s) = Some (TimeValue t))
                  \<and> (dp s = InvalidDate \<longrightarrow>
                       parseDate dp now (Some s) = ddmmyyyyRule s
                       \<and> (searchRe ddmmyyyyAt s = None \<longrightarrow> parseDate dp now (Some s) = None))))"
    if "s \<noteq> []"
    using parseDate_rules [OF that, of dp now]
    by (simp add: standardRule_def ddmmyyyyRule_def)
  from a b c n o show ?thesis by blast
qed

theorem parseDate_oracle_witness:
  "parseDate (\<lambda>s. InvalidDate) 1764500000000 (Some ''26/11/2025 08:15'') = Some (TimeValue 1764115200000)
   \<and> parseDate (\<lambda>s. InvalidDate) 1764500000000 (Some ''hace 3 horas'') = Some (TimeValue 1764489200000)
   \<and> parseDate (\<lambda>s. InvalidDate) 1764500000000 (Some ''sin fecha'') = None"
proof -
  note at_input = parseDate_oracle [of "\<lambda>s. InvalidDate" 1764500000000 "''sin fecha''"]
  have m: "newDate 2025 10 26 = TimeValue 1764115200000" by code_simp
  have h: "timeClip (1764500000000 - 3 * msPerHour) = TimeValue 1764489200000" by code_simp
  have r: "relativeRule 1764500000000 (js_toLowerCase (js_trim ''sin fecha'')) = None" by code_simp
  have k: "haceRule 1764500000000 (js_toLowerCase (js_trim ''sin fecha'')) = None" by code_simp
  have d: "searchRe ddmmyyyyAt ''sin fecha'' = None" by code_simp
  have ne: "''sin fecha'' \<noteq> []" by simp
  from at_input have "parseDate (\<lambda>s. InvalidDate) 1764500000000 (Some ''26/11/2025 08:15'') = Some (newDate 2025 10 26)"
    by blast
  moreover from at_input
  have "parseDate (\<lambda>s. InvalidDate) 1764500000000 (Some ''hace 3 horas'') = Some (timeClip (1764500000000 - 3 * msPerHour))"
    by blast
  moreover from at_input r k d ne
  have "parseDate (\<lambda>s. InvalidDate) 1764500000000 (Some ''sin fecha'') = None"
    by blast
  ultimately show ?thesis using m h by simp
qed

text \<open>
  Claim C4 as stated fails at "26/11/2025 08:15": with a parser of the runtime that rejects
  the string (the month would be 26), the result is local midnight, not 08:15.
\<close>

theorem parseDate_time_of_day_counterexample:
  "parseDate (\<lambda>s. InvalidDate) 1764500000000 (Some ''26/11/2025 08:15'') = Some (localInstant 2025 10 26 0 0)
   \<and> localInstant 2025 10 26 0 0 \<noteq> localInstant 2025 10 26 8 15"
  by code_simp


section \<open>Properties of the store and of the collection loop\<close>

subsection \<open>The store\<close>

lemma keys_mapSet:
  "map fst (mapSet k v m) = (if k \<in> set (map fst m) then map fst m else map fst m @ [k])"
  by (induction m) (force split: if_splits)+

lemma mapHas_keysOf: "mapHas m k \<longleftrightarrow> k \<in> keysOf m"
  by (induction m) (auto simp: keysOf_def)

lemma keysOf_mapSet: "keysOf (mapSet k v m) = insert k (keysOf m)"
proof -
  have "keysOf (mapSet k v m) = set (map fst (mapSet k v m))" by (simp add: keysOf_def)
  also have "\<dots> = insert k (set (map fst m))" by (auto simp: keys_mapSet)
  finally show ?thesis by (simp add: keysOf_def)
qed

lemma mapSize_mapSet:
  "mapSize (mapSet k v m) = (if mapHas m k then mapSize m else Suc (mapSize m))"
proof -
  have "mapSize (mapSet k v m) = length (map fst (mapSet k v m))" by (simp add: mapSize_def)
  then show ?thesis by (simp add: keys_mapSet mapHas_keysOf keysOf_def mapSize_def)
qed

lemma set_mapSet: "set (mapSet k v m) \<subseteq> insert (k, v) (set m)"
  by (induction m) (auto split: if_splits)

lemma distinct_mapSet: "distinct (map fst m) \<Longrightarrow> distinct (map fst (mapSet k v m))"
  by (simp add: keys_mapSet)

lemma mapSize_card: "distinct (map fst m) \<Longrightarrow> mapSize m = card (keysOf m)"
  using distinct_card [of "map fst m"] by (simp add: mapSize_def keysOf_def)

lemma mapSet_keeps: "(k', v') \<in> set m \<Longrightarrow> k' \<noteq> k \<Longrightarrow> (k', v') \<in> set (mapSet k v m)"
  by (induction m) auto

subsection \<open>What holds of every stored pair\<close>

text \<open>
  A property of the pairs of the store that the leads a pass examines establish holds of
  every pair of the store the loop ends with.
\<close>

lemma filterLeads_sound:
  "(l, k) \<in> set (fst (filterLeads dp t store vs)) \<Longrightarrow>
     l \<in> set vs \<and> k = getLeadKey (lead l) \<and> \<not> olderThan (resolvedDate dp l) t \<and> \<not> mapHas store k"
  by (induction vs) (auto simp: Let_def resolvedDate_def split: if_splits prod.splits)

lemma processLeads_invariant:
  assumes "processLeads opts store ps = Inr store'"
    and "\<forall>kv\<in>set store. P kv"
    and "\<And>l k v. (l, k) \<in> set ps \<Longrightarrow> extractAndStructure opts l = Inr v \<Longrightarrow> P (k, v)"
  shows "\<forall>kv\<in>set store'. P kv"
  using assms
proof (induction ps arbitrary: store)
  case Nil
  from Nil.prems(1) have "store' = store" by simp
  with Nil.prems(2) show ?case by simp
next
  case (Cons p ps)
  obtain l k where p: "p = (l, k)" by (cases p)
  show ?case
  proof (cases "mapSize store \<ge> maxLeads opts")
    case True
    with Cons.prems(1) p have "store' = store" by simp
    with Cons.prems(2) show ?thesis by simp
  next
    case False
    with Cons.prems(1) p have
      "(case extractAndStructure opts l of
          Inl e \<Rightarrow> Inl e
        | Inr v \<Rightarrow> processLeads opts (mapSet k v store) ps) = Inr store'"
      by simp
    then obtain v where v: "extractAndStructure opts l = Inr v"
      and rest: "processLeads opts (mapSet k v store) ps = Inr store'"
      by (cases "extractAndStructure opts l") auto
    have "P (k, v)" by (rule Cons.prems(3) [of l k v]) (simp_all add: p v)
    with Cons.prems(2) set_mapSet [of k v store]
    have inv: "\<forall>kv\<in>set (mapSet k v store). P kv" by blast
    show ?thesis
    proof (rule Cons.IH [OF rest inv])
      fix l' k' v'
      assume "(l', k') \<in> set ps" and e: "extractAndStructure opts l' = Inr v'"
      then have "(l', k') \<in> set (p # ps)" by simp
      then show "P (k', v')" using e by (rule Cons.prems(3))
    qed
  qed
qed

lemma finalRescan_invariant:
  assumes "\<forall>kv\<in>set store. P kv"
    and "\<And>l. l \<in> set ls \<Longrightarrow> undatedOrRecent (resolvedDate dp l) t \<Longrightarrow>
            P (getLeadKey (lead l), structuredLead (lead l) Null None noContactInfo (clockAtStamp l))"
  shows "\<forall>kv\<in>set (finalRescan dp t store ls). P kv"
  using assms
proof (induction ls arbitrary: store)
  case Nil
  then show ?case by simp
next
  case (Cons l ls)
  let ?k = "getLeadKey (lead l)"
  let ?v = "structuredLead (lead l) Null None noContactInfo (clockAtStamp l)"
  show ?case
  proof (cases "\<not> mapHas store ?k \<and> undatedOrRecent (resolvedDate dp l) t")
    case True
    with Cons.prems(2) have "P (?k, ?v)" by simp
    with Cons.prems(1) set_mapSet [of ?k ?v store] have "\<forall>kv\<in>set (mapSet ?k ?v store). P kv"
      by auto
    then have "\<forall>kv\<in>set (finalRescan dp t (mapSet ?k ?v store) ls). P kv"
      using Cons.IH Cons.prems(2) by simp
    with True show ?thesis by (simp add: Let_def resolvedDate_def)
  next
    case False
    have "\<forall>kv\<in>set (finalRescan dp t store ls). P kv"
      using Cons.IH Cons.prems by simp
    with False show ?thesis by (auto simp: Let_def resolvedDate_def)
  qed
qed

lemma undatedOrRecent_not_older: "undatedOrRecent d t \<Longrightarrow> \<not> olderThan d t"
  by (auto simp: undatedOrRecent_def olderThan_def split: option.splits jsdate.splits)

lemma loopBody_cases:
  assumes "loopBody dp t opts obs s = Break s' \<or> loopBody dp t opts obs s = Continue s'"
  obtains visible store where
    "visibleLeads obs = Inr visible"
    "processLeads opts (allLeads s) (fst (filterLeads dp t (allLeads s) visible)) = Inr store"
    "allLeads s' = store \<or> (\<exists>final. finalLeads obs = Inr final \<and> allLeads s' = finalRescan dp t store final)"
  using assms
  by (auto simp: loopBody_def Let_def split: sum.splits prod.splits if_splits option.splits)

lemma loopBody_invariant:
  assumes body: "loopBody dp t opts obs s = Break s' \<or> loopBody dp t opts obs s = Continue s'"
    and inv: "\<forall>kv\<in>set (allLeads s). P kv"
    and scan: "\<And>l v. l \<in> seenIn obs \<Longrightarrow> \<not> olderThan (resolvedDate dp l) t \<Longrightarrow>
                 extractAndStructure opts l = Inr v \<Longrightarrow> P (getLeadKey (lead l), v)"
    and rescan: "\<And>l. l \<in> seenIn obs \<Longrightarrow> undatedOrRecent (resolvedDate dp l) t \<Longrightarrow>
                 P (getLeadKey (lead l), structuredLead (lead l) Null None noContactInfo (clockAtStamp l))"
  shows "\<forall>kv\<in>set (allLeads s'). P kv"
proof -
  from body obtain visible store where
    vis: "visibleLeads obs = Inr visible"
    and pr: "processLeads opts (allLeads s) (fst (filterLeads dp t (allLeads s) visible)) = Inr store"
    and fin: "allLeads s' = store \<or> (\<exists>final. finalLeads obs = Inr final \<and> allLeads s' = finalRescan dp t store final)"
    by (rule loopBody_cases)
  have st: "\<forall>kv\<in>set store. P kv"
  proof (rule processLeads_invariant [OF pr inv])
    fix l k v
    assume "(l, k) \<in> set (fst (filterLeads dp t (allLeads s) visible))"
      and e: "extractAndStructure opts l = Inr v"
    then have "l \<in> set visible" "k = getLeadKey (lead l)" "\<not> olderThan (resolvedDate dp l) t"
      using filterLeads_sound by blast+
    with vis e scan show "P (k, v)" by (simp add: seenIn_def)
  qed
  from fin show ?thesis
  proof
    assume "allLeads s' = store"
    with st show ?thesis by simp
  next
    assume "\<exists>final. finalLeads obs = Inr final \<and> allLeads s' = finalRescan dp t store final"
    then obtain final where f: "finalLeads obs = Inr final"
      and a: "allLeads s' = finalRescan dp t store final" by blast
    have "\<forall>kv\<in>set (finalRescan dp t store final). P kv"
    proof (rule finalRescan_invariant [OF st])
      fix l assume "l \<in> set final" "undatedOrRecent (resolvedDate dp l) t"
      with f rescan show "P (getLeadKey (lead l), structuredLead (lead l) Null None noContactInfo (clockAtStamp l))"
        by (simp add: seenIn_def)
    qed
    with a show ?thesis by simp
  qed
qed

lemma whileLoop_invariant:
  assumes "whileLoop dp t opts fd s = Inr s'"
    and "\<forall>kv\<in>set (allLeads s). P kv"
    and "\<And>i l v. l \<in> seenIn (fd i) \<Longrightarrow> \<not> olderThan (resolvedDate dp l) t \<Longrightarrow>
                 extractAndStructure opts l = Inr v \<Longrightarrow> P (getLeadKey (lead l), v)"
    and "\<And>i l. l \<in> seenIn (fd i) \<Longrightarrow> undatedOrRecent (resolvedDate dp l) t \<Longrightarrow>
                 P (getLeadKey (lead l), structuredLead (lead l) Null None noContactInfo (clockAtStamp l))"
  shows "\<forall>kv\<in>set (allLeads s'). P kv"
  using assms
proof (induction dp t opts fd s rule: whileLoop.induct)
  case (1 dp t opts fd s)
  note scan = "1.prems"(3) and rescan = "1.prems"(4)
  show ?case
  proof (cases "loopCondition opts s")
    case False
    with "1.prems"(1) have "s' = s" by simp
    with "1.prems"(2) show ?thesis by simp
  next
    case True
    have step: "\<forall>kv\<in>set (allLeads s1). P kv"
      if "loopBody dp t opts (fd (scrollCount s)) s = Break s1
          \<or> loopBody dp t opts (fd (scrollCount s)) s = Continue s1" for s1
    proof (rule loopBody_invariant [OF that "1.prems"(2)])
      fix l v
      assume "l \<in> seenIn (fd (scrollCount s))" "\<not> olderThan (resolvedDate dp l) t"
        "extractAndStructure opts l = Inr v"
      then show "P (getLeadKey (lead l), v)" by (rule scan)
    next
      fix l
      assume "l \<in> seenIn (fd (scrollCount s))" "undatedOrRecent (resolvedDate dp l) t"
      then show "P (getLeadKey (lead l), structuredLead (lead l) Null None noContactInfo (clockAtStamp l))"
        by (rule rescan)
    qed
    show ?thesis
    proof (cases "loopBody dp t opts (fd (scrollCount s)) s")
      case (Throws e)
      with True "1.prems"(1) show ?thesis by simp
    next
      case (Break s1)
      with True "1.prems"(1) have "s' = s1" by simp
      with step [of s1] Break show ?thesis by simp
    next
      case (Continue s1)
      with True "1.prems"(1) have w: "whileLoop dp t opts fd s1 = Inr s'" by simp
      from step [of s1] Continue have inv1: "\<forall>kv\<in>set (allLeads s1). P kv" by simp
      show ?thesis
        by (rule "1.IH" [OF True Continue w inv1]) (rule scan, assumption+, rule rescan, assumption+)
    qed
  qed
qed

subsection \<open>The store only grows\<close>

lemma processLeads_mono:
  "processLeads opts store ps = Inr store' \<Longrightarrow>
     mapSize store \<le> mapSize store' \<and> keysOf store \<subseteq> keysOf store'
     \<and> (distinct (map fst store) \<longrightarrow> distinct (map fst store'))"
proof (induction ps arbitrary: store)
  case Nil
  then show ?case by simp
next
  case (Cons p ps)
  obtain l k where p: "p = (l, k)" by (cases p)
  show ?case
  proof (cases "mapSize store \<ge> maxLeads opts")
    case True
    with Cons.prems p show ?thesis by simp
  next
    case False
    with Cons.prems p have
      "(case extractAndStructure opts l of
          Inl e \<Rightarrow> Inl e
        | Inr v \<Rightarrow> processLeads opts (mapSet k v store) ps) = Inr store'"
      by simp
    then obtain v where rest: "processLeads opts (mapSet k v store) ps = Inr store'"
      by (cases "extractAndStructure opts l") auto
    from Cons.IH [OF rest] have
      "mapSize (mapSet k v store) \<le> mapSize store'"
      "keysOf (mapSet k v store) \<subseteq> keysOf store'"
      "distinct (map fst (mapSet k v store)) \<longrightarrow> distinct (map fst store')"
      by simp_all
    then show ?thesis
      using distinct_mapSet [of store k v]
      by (auto simp: mapSize_mapSet keysOf_mapSet split: if_splits)
  qed
qed

lemma finalRescan_mono:
  "mapSize store \<le> mapSize (finalRescan dp t store ls)
   \<and> keysOf store \<subseteq> keysOf (finalRescan dp t store ls)
   \<and> (distinct (map fst store) \<longrightarrow> distinct (map fst (finalRescan dp t store ls)))"
proof (induction ls arbitrary: store)
  case Nil
  then show ?case by simp
next
  case (Cons l ls)
  let ?k = "getLeadKey (lead l)"
  let ?v = "structuredLead (lead l) Null None noContactInfo (clockAtStamp l)"
  show ?case
  proof (cases "\<not> mapHas store ?k \<and> undatedOrRecent (resolvedDate dp l) t")
    case True
    then have e: "finalRescan dp t store (l # ls) = finalRescan dp t (mapSet ?k ?v store) ls"
      by (simp add: Let_def resolvedDate_def)
    from Cons.IH [of "mapSet ?k ?v store"] show ?thesis
      unfolding e using distinct_mapSet [of store ?k ?v]
      by (auto simp: mapSize_mapSet keysOf_mapSet split: if_splits)
  next
    case False
    then have e: "finalRescan dp t store (l # ls) = finalRescan dp t store ls"
      by (auto simp: Let_def resolvedDate_def)
    from Cons.IH [of store] show ?thesis unfolding e .
  qed
qed

lemma finalRescan_keeps: "(k, v) \<in> set store \<Longrightarrow> (k, v) \<in> set (finalRescan dp t store ls)"
proof (induction ls arbitrary: store)
  case Nil
  then show ?case by simp
next
  case (Cons l ls)
  let ?k = "getLeadKey (lead l)"
  let ?v = "structuredLead (lead l) Null None noContactInfo (clockAtStamp l)"
  show ?case
  proof (cases "\<not> mapHas store ?k \<and> undatedOrRecent (resolvedDate dp l) t")
    case True
    then have e: "finalRescan dp t store (l # ls) = finalRescan dp t (mapSet ?k ?v store) ls"
      by (simp add: Let_def resolvedDate_def)
    from True Cons.prems have "k \<noteq> ?k" by (force simp: mapHas_keysOf keysOf_def)
    with Cons.prems have "(k, v) \<in> set (mapSet ?k ?v store)" by (simp add: mapSet_keeps)
    with Cons.IH e show ?thesis by simp
  next
    case False
    then have e: "finalRescan dp t store (l # ls) = finalRescan dp t store ls"
      by (auto simp: Let_def resolvedDate_def)
    with Cons show ?thesis by simp
  qed
qed

lemma finalRescan_added:
  "(k, v) \<in> set (finalRescan dp t store ls) \<Longrightarrow>
     (k, v) \<in> set store
     \<or> (\<not> mapHas store k
        \<and> (\<exists>l\<in>set ls. k = getLeadKey (lead l)
              \<and> v = structuredLead (lead l) Null None noContactInfo (clockAtStamp l)
              \<and> undatedOrRecent (resolvedDate dp l) t))"
proof (induction ls arbitrary: store)
  case Nil
  then show ?case by simp
next
  case (Cons l ls)
  let ?k = "getLeadKey (lead l)"
  let ?v = "structuredLead (lead l) Null None noContactInfo (clockAtStamp l)"
  show ?case
  proof (cases "\<not> mapHas store ?k \<and> undatedOrRecent (resolvedDate dp l) t")
    case True
    then have e: "finalRescan dp t store (l # ls) = finalRescan dp t (mapSet ?k ?v store) ls"
      by (simp add: Let_def resolvedDate_def)
    with Cons.prems have "(k, v) \<in> set (finalRescan dp t (mapSet ?k ?v store) ls)" by simp
    from Cons.IH [OF this] show ?thesis
    proof
      assume "(k, v) \<in> set (mapSet ?k ?v store)"
      with set_mapSet [of ?k ?v store] have "(k, v) = (?k, ?v) \<or> (k, v) \<in> set store" by auto
      with True show ?thesis by auto
    next
      assume a: "\<not> mapHas (mapSet ?k ?v store) k
        \<and> (\<exists>l\<in>set ls. k = getLeadKey (lead l)
              \<and> v = structuredLead (lead l) Null None noContactInfo (clockAtStamp l)
              \<and> undatedOrRecent (resolvedDate dp l) t)"
      then have "\<not> mapHas store k" by (simp add: mapHas_keysOf keysOf_mapSet)
      with a show ?thesis by auto
    qed
  next
    case False
    then have e: "finalRescan dp t store (l # ls) = finalRescan dp t store ls"
      by (auto simp: Let_def resolvedDate_def)
    with Cons.prems have "(k, v) \<in> set (finalRescan dp t store ls)" by simp
    from Cons.IH [OF this] show ?thesis by auto
  qed
qed

lemma finalRescan_takes:
  assumes "l \<in> set ls" and "undatedOrRecent (resolvedDate dp l) t"
  shows "getLeadKey (lead l) \<in> keysOf (finalRescan dp t store ls)"
  using assms(1)
proof (induction ls arbitrary: store)
  case Nil
  then show ?case by simp
next
  case (Cons x ls)
  let ?k = "getLeadKey (lead x)"
  let ?v = "structuredLead (lead x) Null None noContactInfo (clockAtStamp x)"
  show ?case
  proof (cases "l = x")
    case True
    show ?thesis
    proof (cases "mapHas store ?k")
      case h: True
      then have "?k \<in> keysOf store" by (simp add: mapHas_keysOf)
      with finalRescan_mono [of store dp t "x # ls"] True show ?thesis by blast
    next
      case h: False
      with True assms(2)
      have e: "finalRescan dp t store (x # ls) = finalRescan dp t (mapSet ?k ?v store) ls"
        by (simp add: Let_def resolvedDate_def)
      have "?k \<in> keysOf (mapSet ?k ?v store)" by (simp add: keysOf_mapSet)
      with finalRescan_mono [of "mapSet ?k ?v store" dp t ls] e True show ?thesis by auto
    qed
  next
    case False
    with Cons.prems have "l \<in> set ls" by simp
    then have "\<And>st. getLeadKey (lead l) \<in> keysOf (finalRescan dp t st ls)" by (rule Cons.IH)
    then show ?thesis by (simp add: Let_def)
  qed
qed

subsection \<open>Termination\<close>

lemma loopBody_Continue_state:
  assumes "loopBody dp t opts obs s = Continue s'"
  shows "\<exists>visible store r.
           visibleLeads obs = Inr visible
           \<and> processLeads opts (allLeads s) (fst (filterLeads dp t (allLeads s) visible)) = Inr store
           \<and> scrollResult obs = Inr r \<and> \<not> atEndOfScroll r
           \<and> s' = s\<lparr> allLeads := store,
                      noNewLeadsCount :=
                        (if mapSize store - mapSize (allLeads s) = 0 then noNewLeadsCount s + 1 else 0),
                      scrollCount := scrollCount s + 1 \<rparr>"
  using assms
  by (auto simp: loopBody_def Let_def split: sum.splits prod.splits if_splits option.splits)

lemma loopBody_Continue:
  assumes "loopBody dp t opts obs s = Continue s'"
  shows "scrollCount s' = Suc (scrollCount s)"
    and "reachedTargetDate s' = reachedTargetDate s"
    and "mapSize (allLeads s) \<le> mapSize (allLeads s')"
    and "noNewLeadsCount s' =
           (if mapSize (allLeads s') = mapSize (allLeads s) then Suc (noNewLeadsCount s) else 0)"
    and "\<exists>r. scrollResult obs = Inr r \<and> \<not> atEndOfScroll r"
proof -
  from loopBody_Continue_state [OF assms] obtain visible store r where
    pr: "processLeads opts (allLeads s) (fst (filterLeads dp t (allLeads s) visible)) = Inr store"
    and sc: "scrollResult obs = Inr r" "\<not> atEndOfScroll r"
    and s': "s' = s\<lparr> allLeads := store,
                      noNewLeadsCount :=
                        (if mapSize store - mapSize (allLeads s) = 0 then noNewLeadsCount s + 1 else 0),
                      scrollCount := scrollCount s + 1 \<rparr>"
    by blast
  from processLeads_mono [OF pr] have le: "mapSize (allLeads s) \<le> mapSize store" by simp
  from s' show "scrollCount s' = Suc (scrollCount s)" by simp
  from s' show "reachedTargetDate s' = reachedTargetDate s" by simp
  from s' le show "mapSize (allLeads s) \<le> mapSize (allLeads s')" by simp
  from s' le show "noNewLeadsCount s' =
           (if mapSize (allLeads s') = mapSize (allLeads s) then Suc (noNewLeadsCount s) else 0)"
    by auto
  from sc show "\<exists>r. scrollResult obs = Inr r \<and> \<not> atEndOfScroll r" by blast
qed

lemma loopBody_distinct:
  assumes "loopBody dp t opts obs s = Break s' \<or> loopBody dp t opts obs s = Continue s'"
    and "distinct (map fst (allLeads s))"
  shows "distinct (map fst (allLeads s'))"
proof -
  from assms(1) obtain visible store where
    pr: "processLeads opts (allLeads s) (fst (filterLeads dp t (allLeads s) visible)) = Inr store"
    and fin: "allLeads s' = store \<or> (\<exists>final. finalLeads obs = Inr final \<and> allLeads s' = finalRescan dp t store final)"
    by (rule loopBody_cases)
  from processLeads_mono [OF pr] assms(2) have d: "distinct (map fst store)" by simp
  from fin show ?thesis
  proof
    assume "allLeads s' = store"
    with d show ?thesis by simp
  next
    assume "\<exists>final. finalLeads obs = Inr final \<and> allLeads s' = finalRescan dp t store final"
    then obtain final where "allLeads s' = finalRescan dp t store final" by blast
    with d finalRescan_mono [of store dp t final] show ?thesis by simp
  qed
qed

lemma passes_le_maxScrolls: "passes dp t opts fd s \<le> maxScrolls opts - scrollCount s"
proof (induction dp t opts fd s rule: passes.induct)
  case (1 dp t opts fd s)
  show ?case
  proof (cases "loopCondition opts s")
    case False
    then show ?thesis by simp
  next
    case True
    then have lt: "scrollCount s < maxScrolls opts" by (simp add: loopCondition_def)
    show ?thesis
    proof (cases "loopBody dp t opts (fd (scrollCount s)) s")
      case (Throws e)
      with True lt show ?thesis by simp
    next
      case (Break s1)
      with True lt show ?thesis by simp
    next
      case (Continue s1)
      from loopBody_Continue(1) [OF Continue] have "scrollCount s1 = Suc (scrollCount s)" .
      with "1.IH" [OF True Continue] True Continue lt show ?thesis by simp
    qed
  qed
qed

lemma store_size_le_card:
  assumes "finite K" "distinct (map fst m)" "keysOf m \<subseteq> K"
  shows "mapSize m \<le> card K"
  using assms by (simp add: mapSize_card card_mono)

lemma passes_stall_bound:
  assumes "finite K"
    and "distinct (map fst (allLeads s))"
    and "keysOf (allLeads s) \<subseteq> K"
    and "\<And>i l. l \<in> seenIn (fd i) \<Longrightarrow> getLeadKey (lead l) \<in> K"
    and "noNewLeadsCount s \<le> 5"
  shows "passes dp t opts fd s + 5 * mapSize (allLeads s) + noNewLeadsCount s \<le> 5 * card K + 5"
  using assms
proof (induction dp t opts fd s rule: passes.induct)
  case (1 dp t opts fd s)
  note seen = "1.prems"(4)
  from "1.prems"(1-3) have sz: "mapSize (allLeads s) \<le> card K" by (rule store_size_le_card)
  show ?case
  proof (cases "loopCondition opts s")
    case False
    with sz "1.prems"(5) show ?thesis by simp
  next
    case True
    then have nn: "noNewLeadsCount s < 5" by (simp add: loopCondition_def)
    show ?thesis
    proof (cases "loopBody dp t opts (fd (scrollCount s)) s")
      case (Throws e)
      with True sz nn show ?thesis by simp
    next
      case (Break s1)
      with True sz nn show ?thesis by simp
    next
      case (Continue s1)
      then have bc: "loopBody dp t opts (fd (scrollCount s)) s = Break s1
                     \<or> loopBody dp t opts (fd (scrollCount s)) s = Continue s1" by simp
      have d1: "distinct (map fst (allLeads s1))"
        by (rule loopBody_distinct [OF bc "1.prems"(2)])
      have "\<forall>kv\<in>set (allLeads s1). fst kv \<in> K"
      proof (rule loopBody_invariant [OF bc])
        show "\<forall>kv\<in>set (allLeads s). fst kv \<in> K"
          using "1.prems"(3) by (auto simp: keysOf_def)
      next
        fix l v assume "l \<in> seenIn (fd (scrollCount s))"
        then show "fst (getLeadKey (lead l), v) \<in> K" using seen by simp
      next
        fix l assume "l \<in> seenIn (fd (scrollCount s))"
        then show "fst (getLeadKey (lead l),
                        structuredLead (lead l) Null None noContactInfo (clockAtStamp l)) \<in> K"
          using seen by simp
      qed
      then have k1: "keysOf (allLeads s1) \<subseteq> K" by (auto simp: keysOf_def)
      note c = loopBody_Continue [OF Continue]
      from c(4) nn have n1: "noNewLeadsCount s1 \<le> 5" by (simp split: if_splits)
      have ih: "passes dp t opts fd s1 + 5 * mapSize (allLeads s1) + noNewLeadsCount s1
                  \<le> 5 * card K + 5"
        by (rule "1.IH" [OF True Continue "1.prems"(1) d1 k1 _ n1]) (rule seen)
      have p: "passes dp t opts fd s = Suc (passes dp t opts fd s1)"
        using True Continue by simp
      show ?thesis
      proof (cases "mapSize (allLeads s1) = mapSize (allLeads s)")
        case True
        with c(4) have "noNewLeadsCount s1 = Suc (noNewLeadsCount s)" by simp
        with ih p True show ?thesis by simp
      next
        case False
        with c(3) have "Suc (mapSize (allLeads s)) \<le> mapSize (allLeads s1)" by simp
        with ih p nn show ?thesis by simp
      qed
    qed
  qed
qed

text \<open>
  Claim C6. The loop is the total function \<open>whileLoop\<close>: its termination proof is that
  every iteration that reaches its end raises \<open>scrollCount\<close>, which the condition keeps
  below \<open>maxScrolls\<close>. \<open>passes\<close> counts the iterations it runs, whatever the page
  answers and whether or not the cutoff is reached. They are at most \<open>maxScrolls\<close>; and
  for a feed whose leads have their keys in a finite set \<open>K\<close> they are at most
  \<open>5 * card K + 5\<close>, whatever \<open>maxScrolls\<close> is, by the stall counter alone. An iteration
  that reaches its end adds one to \<open>noNewLeadsCount\<close> if the store did not grow and resets
  it to zero if it did. With five stalls or with \<open>scrollCount\<close> at \<open>maxScrolls\<close> the loop
  does not run again, and an iteration whose scroll reaches the end of the content never
  goes on to another.
\<close>

theorem collection_loop_terminates:
  "passes dp t opts fd s \<le> maxScrolls opts - scrollCount s
   \<and> (finite K \<and> (\<forall>i. \<forall>l\<in>seenIn (fd i). getLeadKey (lead l) \<in> K) \<longrightarrow>
        passes dp t opts fd initialState \<le> 5 * card K + 5)
   \<and> (\<forall>s'. loopBody dp t opts obs s = Continue s' \<longrightarrow>
          scrollCount s' = Suc (scrollCount s)
          \<and> mapSize (allLeads s) \<le> mapSize (allLeads s')
          \<and> noNewLeadsCount s' =
              (if mapSize (allLeads s') = mapSize (allLeads s) then Suc (noNewLeadsCount s) else 0))
   \<and> (5 \<le> noNewLeadsCount s \<or> maxScrolls opts \<le> scrollCount s \<longrightarrow>
        whileLoop dp t opts fd s = Inr s \<and> passes dp t opts fd s = 0)
   \<and> (\<forall>r. scrollResult obs = Inr r \<and> atEndOfScroll r \<longrightarrow>
          (\<forall>s'. loopBody dp t opts obs s \<noteq> Continue s'))"
proof -
  have a: "passes dp t opts fd s \<le> maxScrolls opts - scrollCount s"
    by (rule passes_le_maxScrolls)
  have b: "passes dp t opts fd initialState \<le> 5 * card K + 5"
    if "finite K" "\<forall>i. \<forall>l\<in>seenIn (fd i). getLeadKey (lead l) \<in> K"
  proof -
    have "passes dp t opts fd initialState + 5 * mapSize (allLeads initialState)
            + noNewLeadsCount initialState \<le> 5 * card K + 5"
      by (rule passes_stall_bound [OF that(1)]) (use that(2) in \<open>auto simp: initialState_def keysOf_def\<close>)
    then show ?thesis by simp
  qed
  have c: "scrollCount s' = Suc (scrollCount s)
          \<and> mapSize (allLeads s) \<le> mapSize (allLeads s')
          \<and> noNewLeadsCount s' =
              (if mapSize (allLeads s') = mapSize (allLeads s) then Suc (noNewLeadsCount s) else 0)"
    if "loopBody dp t opts obs s = Continue s'" for s'
    using loopBody_Continue [OF that] by simp
  have d: "whileLoop dp t opts fd s = Inr s \<and> passes dp t opts fd s = 0"
    if "5 \<le> noNewLeadsCount s \<or> maxScrolls opts \<le> scrollCount s"
  proof -
    from that have "\<not> loopCondition opts s" by (auto simp: loopCondition_def)
    then show ?thesis by simp
  qed
  have e: "loopBody dp t opts obs s \<noteq> Continue s'"
    if "scrollResult obs = Inr r \<and> atEndOfScroll r" for r s'
  proof
    assume "loopBody dp t opts obs s = Continue s'"
    from loopBody_Continue(5) [OF this] that show False by auto
  qed
  from a b c d e show ?thesis by blast
qed

theorem collection_loop_terminates_witness:
  "passes rejectSlashDates cutoff2025 \<lparr> maxScrolls = 200, maxLeads = 10000, extractDetails = False \<rparr>
     (\<lambda>i. quietPass) initialState = 5
   \<and> (\<exists>s'. loopBody rejectSlashDates cutoff2025
               \<lparr> maxScrolls = 200, maxLeads = 10000, extractDetails = False \<rparr> quietPass initialState
             = Continue s'
           \<and> scrollCount s' = 1 \<and> noNewLeadsCount s' = 1)
   \<and> whileLoop rejectSlashDates cutoff2025 \<lparr> maxScrolls = 200, maxLeads = 10000, extractDetails = False \<rparr>
         (\<lambda>i. quietPass) (initialState \<lparr> noNewLeadsCount := 5 \<rparr>)
       = Inr (initialState \<lparr> noNewLeadsCount := 5 \<rparr>)"
proof -
  let ?opts = "\<lparr> maxScrolls = 200, maxLeads = 10000, extractDetails = False \<rparr>"
  let ?stalled = "initialState \<lparr> noNewLeadsCount := 5 \<rparr>"
  note at_quiet = collection_loop_terminates [of rejectSlashDates cutoff2025 ?opts "\<lambda>i. quietPass"
                    initialState "{}" quietPass]
  have "finite ({} :: string set)
        \<and> (\<forall>i. \<forall>l\<in>seenIn ((\<lambda>i. quietPass) i). getLeadKey (lead l) \<in> ({} :: string set))"
    by (simp add: seenIn_def quietPass_def)
  with at_quiet
  have "passes rejectSlashDates cutoff2025 ?opts (\<lambda>i. quietPass) initialState
          \<le> 5 * card ({} :: string set) + 5"
    by blast
  then have le: "passes rejectSlashDates cutoff2025 ?opts (\<lambda>i. quietPass) initialState \<le> 5" by simp
  have "5 \<le> passes rejectSlashDates cutoff2025 ?opts (\<lambda>i. quietPass) initialState" by code_simp
  with le have a: "passes rejectSlashDates cutoff2025 ?opts (\<lambda>i. quietPass) initialState = 5" by simp
  have "(case loopBody rejectSlashDates cutoff2025 ?opts quietPass initialState of
           Continue s' \<Rightarrow> mapSize (allLeads s') = 0 | _ \<Rightarrow> False)"
    by code_simp
  then obtain s' where
    c: "loopBody rejectSlashDates cutoff2025 ?opts quietPass initialState = Continue s'"
    and z: "mapSize (allLeads s') = 0"
    by (auto split: pass_result.splits)
  from at_quiet c have "scrollCount s' = Suc (scrollCount initialState)
          \<and> noNewLeadsCount s' =
              (if mapSize (allLeads s') = mapSize (allLeads initialState)
               then Suc (noNewLeadsCount initialState) else 0)"
    by blast
  with z have "scrollCount s' = 1 \<and> noNewLeadsCount s' = 1"
    by (simp add: initialState_def mapSize_def)
  with c have b: "\<exists>s'. loopBody rejectSlashDates cutoff2025 ?opts quietPass initialState = Continue s'
           \<and> scrollCount s' = 1 \<and> noNewLeadsCount s' = 1"
    by blast
  have "5 \<le> noNewLeadsCount ?stalled \<or> maxScrolls ?opts \<le> scrollCount ?stalled" by simp
  with collection_loop_terminates [of rejectSlashDates cutoff2025 ?opts "\<lambda>i. quietPass"
         ?stalled "{}" quietPass]
  have d: "whileLoop rejectSlashDates cutoff2025 ?opts (\<lambda>i. quietPass) ?stalled = Inr ?stalled"
    by blast
  show ?thesis by (intro conjI) (rule a b d)+
qed

subsection \<open>The cutoff\<close>

lemma filterLeads_append:
  "\<not> snd (filterLeads dp t store pre) \<Longrightarrow>
     filterLeads dp t store (pre @ rest)
       = (fst (filterLeads dp t store pre) @ fst (filterLeads dp t store rest),
          snd (filterLeads dp t store rest))"
  by (induction pre) (auto simp: Let_def split: prod.splits if_splits)

lemma filterLeads_not_reached:
  "\<not> snd (filterLeads dp t store vs) \<Longrightarrow>
     fst (filterLeads dp t store vs)
       = map (\<lambda>x. (x, getLeadKey (lead x))) (filter (\<lambda>x. \<not> mapHas store (getLeadKey (lead x))) vs)"
  by (induction vs) (auto simp: Let_def split: prod.splits if_splits)

lemma filterLeads_reached_iff:
  "snd (filterLeads dp t store vs)
     \<longleftrightarrow> (\<exists>l\<in>set vs. \<not> mapHas store (getLeadKey (lead l)) \<and> olderThan (resolvedDate dp l) t)"
  by (induction vs) (auto simp: Let_def resolvedDate_def split: prod.splits if_splits)

lemma filterLeads_first_old:
  assumes "\<not> snd (filterLeads dp t store pre)"
    and "\<not> mapHas store (getLeadKey (lead l))"
    and "olderThan (resolvedDate dp l) t"
  shows "filterLeads dp t store (pre @ l # post)
           = (map (\<lambda>x. (x, getLeadKey (lead x)))
                (filter (\<lambda>x. \<not> mapHas store (getLeadKey (lead x))) pre), True)"
proof -
  from assms(2,3) have "filterLeads dp t store (l # post) = ([], True)"
    by (simp add: Let_def resolvedDate_def)
  with filterLeads_append [OF assms(1), of "l # post"] filterLeads_not_reached [OF assms(1)]
  show ?thesis by simp
qed

lemma loopBody_reached:
  assumes "visibleLeads obs = Inr vs" and "snd (filterLeads dp t (allLeads s) vs)"
  shows "(\<exists>e. loopBody dp t opts obs s = Throws e)
         \<or> (\<exists>s'. loopBody dp t opts obs s = Break s' \<and> reachedTargetDate s'
                  \<and> scrollCount s' = scrollCount s
                  \<and> processLeads opts (allLeads s) (fst (filterLeads dp t (allLeads s) vs))
                      = Inr (allLeads s'))"
  using assms
  by (auto simp: loopBody_def Let_def split: sum.splits prod.splits)

lemma exportOf_extractAndStructure:
  "extractAndStructure opts l = Inr v \<Longrightarrow> exportOf l v"
  by (auto simp: extractAndStructure_def exportOf_def structuredLead_def
           split: if_splits sum.splits)

lemma exportOf_rescan:
  "exportOf l (structuredLead (lead l) Null None noContactInfo (clockAtStamp l))"
  by (simp add: exportOf_def structuredLead_def)

lemma scrapeLeadsUntilDate_Inr:
  assumes "scrapeLeadsUntilDate env t opts = Inr ls"
  obtains s' where "whileLoop (dateParse env) t opts (feed env) initialState = Inr s'"
    and "ls = map snd (allLeads s')"
  using assms
  by (auto simp: scrapeLeadsUntilDate_def mapValues_def split: option.splits sum.splits)

lemma result_provenance:
  assumes "scrapeLeadsUntilDate env t opts = Inr ls" and "v \<in> set ls"
  shows "\<exists>i. \<exists>l\<in>seenIn (feed env i). exportOf l v \<and> \<not> olderThan (resolvedDate (dateParse env) l) t"
proof -
  let ?P = "\<lambda>kv. \<exists>i. \<exists>l\<in>seenIn (feed env i).
                     exportOf l (snd kv) \<and> \<not> olderThan (resolvedDate (dateParse env) l) t"
  from assms(1) obtain s' where
    w: "whileLoop (dateParse env) t opts (feed env) initialState = Inr s'"
    and ls: "ls = map snd (allLeads s')"
    by (rule scrapeLeadsUntilDate_Inr)
  have "\<forall>kv\<in>set (allLeads s'). ?P kv"
  proof (rule whileLoop_invariant [OF w])
    show "\<forall>kv\<in>set (allLeads initialState). ?P kv" by (simp add: initialState_def)
  next
    fix i l v
    assume "l \<in> seenIn (feed env i)" "\<not> olderThan (resolvedDate (dateParse env) l) t"
      "extractAndStructure opts l = Inr v"
    then show "?P (getLeadKey (lead l), v)"
      using exportOf_extractAndStructure by fastforce
  next
    fix i l
    assume "l \<in> seenIn (feed env i)" "undatedOrRecent (resolvedDate (dateParse env) l) t"
    then show "?P (getLeadKey (lead l), structuredLead (lead l) Null None noContactInfo (clockAtStamp l))"
      using exportOf_rescan undatedOrRecent_not_older by fastforce
  qed
  with ls assms(2) show ?thesis by auto
qed

text \<open>
  Claim C3, as the code has it. In the scan of an iteration, the first lead that is new
  (its key is not in the store) and whose resolved date is strictly older than the cutoff
  ends the examination of the rows: what is left to process is the new leads before it,
  the rows after it are not looked at, the iteration sets \<open>reachedTargetDate\<close> (unless an
  extraction throws) and the loop returns. The last rescan at the end of the scroll has no
  such stop: there an older lead is skipped and the rows after it are still examined.
  In both, every object of the returned array was built from a lead that the loop examined
  and whose date, as resolved then, was not strictly older than the cutoff. A lead with no
  date is never older than the cutoff, and the last rescan stores it.
\<close>

theorem cutoff_stops_scan_and_filters_result:
  "(\<forall>pre l post.
      \<not> snd (filterLeads dp t store pre) \<and> \<not> mapHas store (getLeadKey (lead l))
      \<and> olderThan (resolvedDate dp l) t \<longrightarrow>
      filterLeads dp t store (pre @ l # post)
        = (map (\<lambda>x. (x, getLeadKey (lead x)))
             (filter (\<lambda>x. \<not> mapHas store (getLeadKey (lead x))) pre), True))
   \<and> (snd (filterLeads dp t store vs)
        \<longleftrightarrow> (\<exists>l\<in>set vs. \<not> mapHas store (getLeadKey (lead l)) \<and> olderThan (resolvedDate dp l) t))
   \<and> (visibleLeads obs = Inr vs \<and> snd (filterLeads dp t (allLeads s) vs) \<longrightarrow>
        (\<exists>e. loopBody dp t opts obs s = Throws e)
        \<or> (\<exists>s'. loopBody dp t opts obs s = Break s' \<and> reachedTargetDate s'
                 \<and> processLeads opts (allLeads s) (fst (filterLeads dp t (allLeads s) vs))
                     = Inr (allLeads s')))
   \<and> (\<forall>s'. loopCondition opts s \<and> loopBody dp t opts (fd (scrollCount s)) s = Break s' \<longrightarrow>
          whileLoop dp t opts fd s = Inr s')
   \<and> (\<forall>ls. scrapeLeadsUntilDate env t opts = Inr ls \<longrightarrow>
          (\<forall>v\<in>set ls. \<exists>i. \<exists>l\<in>seenIn (feed env i).
                 exportOf l v \<and> \<not> olderThan (resolvedDate (dateParse env) l) t))
   \<and> (\<forall>l\<in>set final. resolvedDate dp l = None \<longrightarrow>
          getLeadKey (lead l) \<in> keysOf (finalRescan dp t store final))
   \<and> \<not> olderThan None t"
proof -
  have a: "\<forall>pre l post.
      \<not> snd (filterLeads dp t store pre) \<and> \<not> mapHas store (getLeadKey (lead l))
      \<and> olderThan (resolvedDate dp l) t \<longrightarrow>
      filterLeads dp t store (pre @ l # post)
        = (map (\<lambda>x. (x, getLeadKey (lead x)))
             (filter (\<lambda>x. \<not> mapHas store (getLeadKey (lead x))) pre), True)"
    using filterLeads_first_old by blast
  have b: "snd (filterLeads dp t store vs)
        \<longleftrightarrow> (\<exists>l\<in>set vs. \<not> mapHas store (getLeadKey (lead l)) \<and> olderThan (resolvedDate dp l) t)"
    by (rule filterLeads_reached_iff)
  have c: "visibleLeads obs = Inr vs \<and> snd (filterLeads dp t (allLeads s) vs) \<longrightarrow>
        (\<exists>e. loopBody dp t opts obs s = Throws e)
        \<or> (\<exists>s'. loopBody dp t opts obs s = Break s' \<and> reachedTargetDate s'
                 \<and> processLeads opts (allLeads s) (fst (filterLeads dp t (allLeads s) vs))
                     = Inr (allLeads s'))"
    using loopBody_reached [of obs vs dp t s opts] by blast
  have d: "\<forall>s'. loopCondition opts s \<and> loopBody dp t opts (fd (scrollCount s)) s = Break s' \<longrightarrow>
          whileLoop dp t opts fd s = Inr s'"
    by simp
  have e: "\<forall>ls. scrapeLeadsUntilDate env t opts = Inr ls \<longrightarrow>
          (\<forall>v\<in>set ls. \<exists>i. \<exists>l\<in>seenIn (feed env i).
                 exportOf l v \<and> \<not> olderThan (resolvedDate (dateParse env) l) t)"
    using result_provenance by blast
  have f: "\<forall>l\<in>set final. resolvedDate dp l = None \<longrightarrow>
          getLeadKey (lead l) \<in> keysOf (finalRescan dp t store final)"
  proof (intro ballI impI)
    fix l assume "l \<in> set final" "resolvedDate dp l = None"
    then show "getLeadKey (lead l) \<in> keysOf (finalRescan dp t store final)"
      by (intro finalRescan_takes) (simp_all add: undatedOrRecent_def)
  qed
  have g: "\<not> olderThan None t" by (simp add: olderThan_def)
  from a b c d e f g show ?thesis by blast
qed

theorem cutoff_stops_scan_and_filters_result_witness:
  "snd (filterLeads rejectSlashDates cutoff2025 []
          (plainRow ''Ana Paz (Bea Gil) Lavalle 300 26/11/2025 08:15''
           @ plainRow ''Carla Diaz (Bea Gil) Maipu 12 15/01/2020 09:00''
           @ plainRow ''Dora Ruiz (Bea Gil) Salta 9''))
   \<and> (\<exists>s'. whileLoop rejectSlashDates cutoff2025
               \<lparr> maxScrolls = 200, maxLeads = 10000, extractDetails = False \<rparr>
               (feed (onePass oldRowInScanPass)) initialState = Inr s'
           \<and> reachedTargetDate s')
   \<and> ''dora ruiz--'' \<in> keysOf (finalRescan rejectSlashDates cutoff2025 []
                                    (plainRow ''Dora Ruiz (Bea Gil) Salta 9''))"
proof -
  let ?opts = "\<lparr> maxScrolls = 200, maxLeads = 10000, extractDetails = False \<rparr>"
  let ?vs = "plainRow ''Ana Paz (Bea Gil) Lavalle 300 26/11/2025 08:15''
           @ plainRow ''Carla Diaz (Bea Gil) Maipu 12 15/01/2020 09:00''
           @ plainRow ''Dora Ruiz (Bea Gil) Salta 9''"
  let ?dora = "plainRow ''Dora Ruiz (Bea Gil) Salta 9''"
  let ?fd = "feed (onePass oldRowInScanPass)"
  note at_scan = cutoff_stops_scan_and_filters_result
                   [where dp = rejectSlashDates and t = cutoff2025 and store = "[]" and vs = ?vs
                      and obs = oldRowInScanPass and s = initialState and opts = ?opts
                      and fd = ?fd and final = ?dora]
  note reached_iff = at_scan [THEN conjunct2, THEN conjunct1]
  note body_breaks = at_scan [THEN conjunct2, THEN conjunct2, THEN conjunct1]
  note loop_returns = at_scan [THEN conjunct2, THEN conjunct2, THEN conjunct2, THEN conjunct1]
  note undated_kept = at_scan [THEN conjunct2, THEN conjunct2, THEN conjunct2, THEN conjunct2,
                               THEN conjunct2, THEN conjunct1]
  have "\<exists>l\<in>set ?vs. \<not> mapHas [] (getLeadKey (lead l))
                     \<and> olderThan (resolvedDate rejectSlashDates l) cutoff2025"
    by code_simp
  with reached_iff have a: "snd (filterLeads rejectSlashDates cutoff2025 [] ?vs)" by (rule iffD2)
  have v: "visibleLeads oldRowInScanPass = Inr ?vs" by (simp add: oldRowInScanPass_def)
  have e: "allLeads initialState = []" by (simp add: initialState_def)
  from a e have a': "snd (filterLeads rejectSlashDates cutoff2025 (allLeads initialState) ?vs)"
    by simp
  have nt: "\<forall>e. loopBody rejectSlashDates cutoff2025 ?opts oldRowInScanPass initialState \<noteq> Throws e"
  proof -
    have "(case loopBody rejectSlashDates cutoff2025 ?opts oldRowInScanPass initialState of
               Throws e \<Rightarrow> False | _ \<Rightarrow> True)"
      by code_simp
    then show ?thesis
      by (cases "loopBody rejectSlashDates cutoff2025 ?opts oldRowInScanPass initialState") simp_all
  qed
  from body_breaks v a'
  have "(\<exists>e. loopBody rejectSlashDates cutoff2025 ?opts oldRowInScanPass initialState = Throws e)
        \<or> (\<exists>s'. loopBody rejectSlashDates cutoff2025 ?opts oldRowInScanPass initialState = Break s'
                 \<and> reachedTargetDate s'
                 \<and> processLeads ?opts (allLeads initialState)
                      (fst (filterLeads rejectSlashDates cutoff2025 (allLeads initialState) ?vs))
                     = Inr (allLeads s'))"
    by (rule mp [OF _ conjI])
  with nt obtain s' where
    br: "loopBody rejectSlashDates cutoff2025 ?opts oldRowInScanPass initialState = Break s'"
    and rt: "reachedTargetDate s'"
    by blast
  have f0: "?fd (scrollCount initialState) = oldRowInScanPass"
    by (simp add: onePass_def initialState_def)
  have lc: "loopCondition ?opts initialState"
    by (simp add: loopCondition_def initialState_def mapSize_def)
  from br f0 have "loopBody rejectSlashDates cutoff2025 ?opts (?fd (scrollCount initialState)) initialState
                     = Break s'"
    by simp
  with loop_returns lc
  have "whileLoop rejectSlashDates cutoff2025 ?opts ?fd initialState = Inr s'" by blast
  with rt have b: "\<exists>s'. whileLoop rejectSlashDates cutoff2025 ?opts ?fd initialState = Inr s'
                        \<and> reachedTargetDate s'"
    by blast
  have "list_all (\<lambda>l. resolvedDate rejectSlashDates l = None \<and> getLeadKey (lead l) = ''dora ruiz--'')
          ?dora
        \<and> ?dora \<noteq> []"
    by code_simp
  then obtain l where l: "l \<in> set ?dora"
    "resolvedDate rejectSlashDates l = None" "getLeadKey (lead l) = ''dora ruiz--''"
    by (cases ?dora) auto
  from undated_kept l(1,2)
  have "getLeadKey (lead l) \<in> keysOf (finalRescan rejectSlashDates cutoff2025 [] ?dora)" by blast
  with l(3) have c: "''dora ruiz--'' \<in> keysOf (finalRescan rejectSlashDates cutoff2025 [] ?dora)"
    by simp
  show ?thesis by (intro conjI) (rule a b c)+
qed

text \<open>
  Claim C3 as stated fails in the last rescan: a new row of January 2020 is seen there
  before a row with no date; the flag stays unset, and the row after the old one is still
  examined and stored.
\<close>

theorem final_rescan_passes_old_row_counterexample:
  "plainRow ''Carla Diaz (Bea Gil) Maipu 12 15/01/2020 09:00'' \<noteq> []
   \<and> list_all (\<lambda>l. olderThan (resolvedDate rejectSlashDates l) cutoff2025
                    \<and> \<not> mapHas [] (getLeadKey (lead l)))
        (plainRow ''Carla Diaz (Bea Gil) Maipu 12 15/01/2020 09:00'')
   \<and> (case whileLoop rejectSlashDates cutoff2025
              \<lparr> maxScrolls = 200, maxLeads = 10000, extractDetails = False \<rparr>
              (feed (onePass oldRowInRescanPass)) initialState of
         Inl e \<Rightarrow> (True, [])
       | Inr s \<Rightarrow> (reachedTargetDate s, map fst (allLeads s)))
      = (False, [''ana paz--'', ''dora ruiz--''])"
  by code_simp

subsection \<open>The exported objects\<close>

lemma detailsNull_plain:
  "detailsNull (structuredLead l Null None noContactInfo stamp)"
  by (simp add: detailsNull_def structuredLead_def noContactInfo_def nullable_def)

lemma extractAndStructure_plain:
  "\<not> extractDetails opts \<Longrightarrow> extractAndStructure opts l = Inr v \<Longrightarrow> detailsNull v"
  by (auto simp: extractAndStructure_def detailsNull_plain)

lemma orNull_defined: "orNull x \<noteq> Undefined"
  by (simp add: orNull_def split: option.splits)

lemma nullable_defined: "nullable x \<noteq> Undefined"
  by (simp add: nullable_def split: option.splits)

lemma extractAndStructure_defined:
  "extractAndStructure opts l = Inr v \<Longrightarrow>
     contact_name v \<noteq> Undefined \<and> contact_email v \<noteq> Undefined \<and> contact_phone v \<noteq> Undefined
     \<and> contact_cellPhone v \<noteq> Undefined \<and> agent_name v \<noteq> Undefined
     \<and> property_address v \<noteq> Undefined \<and> lead_lastUpdated v \<noteq> Undefined"
  by (auto simp: extractAndStructure_def structuredLead_def orNull_defined nullable_defined
           split: if_splits sum.splits)

lemma structuredLead_plain_defined:
  "contact_name (structuredLead l Null None noContactInfo stamp) \<noteq> Undefined
   \<and> contact_email (structuredLead l Null None noContactInfo stamp) \<noteq> Undefined
   \<and> contact_phone (structuredLead l Null None noContactInfo stamp) \<noteq> Undefined
   \<and> contact_cellPhone (structuredLead l Null None noContactInfo stamp) \<noteq> Undefined
   \<and> agent_name (structuredLead l Null None noContactInfo stamp) \<noteq> Undefined
   \<and> property_address (structuredLead l Null None noContactInfo stamp) \<noteq> Undefined
   \<and> lead_lastUpdated (structuredLead l Null None noContactInfo stamp) \<noteq> Undefined"
  by (simp add: structuredLead_def orNull_defined nullable_defined)

lemma result_details_null:
  assumes "\<not> extractDetails opts" and "scrapeLeadsUntilDate env t opts = Inr ls" and "v \<in> set ls"
  shows "detailsNull v"
proof -
  from assms(2) obtain s' where
    w: "whileLoop (dateParse env) t opts (feed env) initialState = Inr s'"
    and ls: "ls = map snd (allLeads s')"
    by (rule scrapeLeadsUntilDate_Inr)
  have "\<forall>kv\<in>set (allLeads s'). detailsNull (snd kv)"
  proof (rule whileLoop_invariant [OF w])
    show "\<forall>kv\<in>set (allLeads initialState). detailsNull (snd kv)" by (simp add: initialState_def)
  next
    fix i l v
    assume "extractAndStructure opts l = Inr v"
    with assms(1) show "detailsNull (snd (getLeadKey (lead l), v))"
      by (simp add: extractAndStructure_plain)
  next
    fix i l
    show "detailsNull (snd (getLeadKey (lead l),
                            structuredLead (lead l) Null None noContactInfo (clockAtStamp l)))"
      by (simp add: detailsNull_plain)
  qed
  with ls assms(3) show ?thesis by auto
qed

lemma result_defined:
  assumes "scrapeLeadsUntilDate env t opts = Inr ls" and "v \<in> set ls"
  shows "contact_name v \<noteq> Undefined \<and> contact_email v \<noteq> Undefined \<and> contact_phone v \<noteq> Undefined
     \<and> contact_cellPhone v \<noteq> Undefined \<and> agent_name v \<noteq> Undefined
     \<and> property_address v \<noteq> Undefined \<and> lead_lastUpdated v \<noteq> Undefined"
proof -
  let ?P = "\<lambda>kv. contact_name (snd kv) \<noteq> Undefined \<and> contact_email (snd kv) \<noteq> Undefined
     \<and> contact_phone (snd kv) \<noteq> Undefined
     \<and> contact_cellPhone (snd kv) \<noteq> Undefined \<and> agent_name (snd kv) \<noteq> Undefined
     \<and> property_address (snd kv) \<noteq> Undefined \<and> lead_lastUpdated (snd kv) \<noteq> Undefined"
  from assms(1) obtain s' where
    w: "whileLoop (dateParse env) t opts (feed env) initialState = Inr s'"
    and ls: "ls = map snd (allLeads s')"
    by (rule scrapeLeadsUntilDate_Inr)
  have "\<forall>kv\<in>set (allLeads s'). ?P kv"
  proof (rule whileLoop_invariant [OF w])
    show "\<forall>kv\<in>set (allLeads initialState). ?P kv" by (simp add: initialState_def)
  next
    fix i l v
    assume "extractAndStructure opts l = Inr v"
    from extractAndStructure_defined [OF this] show "?P (getLeadKey (lead l), v)" by simp
  next
    fix i l
    from structuredLead_plain_defined [of "lead l" "clockAtStamp l"]
    show "?P (getLeadKey (lead l), structuredLead (lead l) Null None noContactInfo (clockAtStamp l))"
      by simp
  qed
  with ls assms(2) show ?thesis by auto
qed

text \<open>
  Claim C10. The record \<open>structured_lead\<close> is the shape of every element of the returned
  array: \<open>contact\<close> with \<open>name\<close>, \<open>email\<close>, \<open>phone\<close>, \<open>cellPhone\<close>; \<open>agent\<close> with \<open>name\<close>;
  \<open>property\<close> with \<open>id\<close>, \<open>address\<close>; \<open>lastUpdated\<close>; \<open>scrapedAt\<close>. Without
  \<open>extractDetails\<close>, the email, the two phones and the property id of every element are
  \<open>null\<close>. Whatever the options, a pair that the last rescan adds to the store has a key that
  was not there and the same four fields at \<open>null\<close>, and the rescan leaves every pair that
  was there as it was. Every field but the property id is a string or \<open>null\<close> in every
  element.
\<close>

theorem exported_leads_details:
  "(\<forall>ls. \<not> extractDetails opts \<and> scrapeLeadsUntilDate env t opts = Inr ls \<longrightarrow>
          (\<forall>v\<in>set ls. detailsNull v))
   \<and> (\<forall>k v. (k, v) \<in> set (finalRescan dp t store final) \<and> (k, v) \<notin> set store \<longrightarrow>
          \<not> mapHas store k \<and> detailsNull v)
   \<and> (\<forall>kv\<in>set store. kv \<in> set (finalRescan dp t store final))
   \<and> (\<forall>ls. scrapeLeadsUntilDate env t opts = Inr ls \<longrightarrow>
          (\<forall>v\<in>set ls. contact_name v \<noteq> Undefined \<and> contact_email v \<noteq> Undefined
                \<and> contact_phone v \<noteq> Undefined \<and> contact_cellPhone v \<noteq> Undefined
                \<and> agent_name v \<noteq> Undefined \<and> property_address v \<noteq> Undefined
                \<and> lead_lastUpdated v \<noteq> Undefined))"
proof -
  have a: "\<forall>ls. \<not> extractDetails opts \<and> scrapeLeadsUntilDate env t opts = Inr ls \<longrightarrow>
          (\<forall>v\<in>set ls. detailsNull v)"
    using result_details_null by blast
  have b: "\<forall>k v. (k, v) \<in> set (finalRescan dp t store final) \<and> (k, v) \<notin> set store \<longrightarrow>
          \<not> mapHas store k \<and> detailsNull v"
  proof (intro allI impI)
    fix k v
    assume h: "(k, v) \<in> set (finalRescan dp t store final) \<and> (k, v) \<notin> set store"
    with finalRescan_added [of k v dp t store final]
    show "\<not> mapHas store k \<and> detailsNull v" by (auto simp: detailsNull_plain)
  qed
  have c: "\<forall>kv\<in>set store. kv \<in> set (finalRescan dp t store final)"
    using finalRescan_keeps by auto
  have d: "\<forall>ls. scrapeLeadsUntilDate env t opts = Inr ls \<longrightarrow>
          (\<forall>v\<in>set ls. contact_name v \<noteq> Undefined \<and> contact_email v \<noteq> Undefined
                \<and> contact_phone v \<noteq> Undefined \<and> contact_cellPhone v \<noteq> Undefined
                \<and> agent_name v \<noteq> Undefined \<and> property_address v \<noteq> Undefined
                \<and> lead_lastUpdated v \<noteq> Undefined)"
    using result_defined by blast
  from a b c d show ?thesis by blast
qed

theorem exported_leads_details_witness:
  "\<exists>ls. scrapeLeadsUntilDate (onePass overflowPass) cutoff2025
           \<lparr> maxScrolls = 200, maxLeads = 10000, extractDetails = False \<rparr> = Inr ls
        \<and> length ls = 3 \<and> list_all detailsNull ls \<and> list_all (\<lambda>v. contact_name v \<noteq> Undefined) ls"
proof -
  let ?opts = "\<lparr> maxScrolls = 200, maxLeads = 10000, extractDetails = False \<rparr>"
  note at_run = exported_leads_details [of ?opts "onePass overflowPass" cutoff2025]
  have "(case scrapeLeadsUntilDate (onePass overflowPass) cutoff2025 ?opts of
           Inl e \<Rightarrow> False | Inr ls \<Rightarrow> length ls = 3)"
    by code_simp
  then obtain ls where r: "scrapeLeadsUntilDate (onePass overflowPass) cutoff2025 ?opts = Inr ls"
    and n: "length ls = 3"
    by (auto split: sum.splits)
  have "\<not> extractDetails ?opts" by simp
  with r at_run have "\<forall>v\<in>set ls. detailsNull v" by blast
  moreover from r at_run have "\<forall>v\<in>set ls. contact_name v \<noteq> Undefined" by blast
  ultimately show ?thesis using r n by (auto simp: list_all_iff)
qed

subsection \<open>The ceiling on the number of leads\<close>

text \<open>
  Claim C7 at a run with \<open>maxLeads = 1\<close>: the scan stores one lead, the scroll reaches the end
  of the content, and the last rescan, which does not look at \<open>maxLeads\<close>, stores two more.
  Three leads are returned.
\<close>

theorem maxLeads_exceeded_by_final_rescan:
  "(case scrapeLeadsUntilDate (onePass overflowPass) cutoff2025
           \<lparr> maxScrolls = 200, maxLeads = 1, extractDetails = False \<rparr> of
      Inl e \<Rightarrow> []
    | Inr ls \<Rightarrow> map contact_name ls)
   = [Str ''Ana Paz'', Str ''Carla Diaz'', Str ''Dora Ruiz'']"
  by code_simp

subsection \<open>A key stored twice in one iteration\<close>

text \<open>
  Claim C8 at an iteration that sees two rows with one key. The scan checks both against
  the store before either is stored, so both are processed, and the second \<open>set\<close> replaces
  the object of the first: the email, the mobile phone and the property id that the first
  row had yielded are gone. Shown first is the run with the first row alone.
\<close>

theorem enrichment_replaced_by_row_of_same_key:
  "(case scrapeLeadsUntilDate (onePass firstRowOnlyPass) cutoff2025
           \<lparr> maxScrolls = 200, maxLeads = 10000, extractDetails = True \<rparr> of
      Inl e \<Rightarrow> []
    | Inr ls \<Rightarrow> map (\<lambda>v. (contact_email v, contact_cellPhone v, property_id v, property_address v)) ls)
   = [(Str ''ana@mail.com'', Str ''+5491112345678'', Str ''AAP7427642'', Str ''Lavalle 300'')]
   \<and> (case scrapeLeadsUntilDate (onePass sameContactPass) cutoff2025
           \<lparr> maxScrolls = 200, maxLeads = 10000, extractDetails = True \<rparr> of
      Inl e \<Rightarrow> []
    | Inr ls \<Rightarrow> map (\<lambda>v. (contact_email v, contact_cellPhone v, property_id v, property_address v)) ls)
   = [(Null, Null, Undefined, Str ''Maipu 12'')]"
  by code_simp

section \<open>Properties of the orchestrator and of the route\<close>

lemma tryBlock_Inr:
  "snd (tryBlock env opts) = Inr r \<Longrightarrow>
     success r \<and> error r = None \<and> (\<exists>m. metadata r = Some m \<and> totalLeads m = length (leads r))"
  by (auto simp: tryBlock_def Let_def split: option.splits jsdate.splits sum.splits if_splits)

text \<open>
  Claim C9, as the code has it. Whenever no browser was launched or the \<open>browser.close()\<close>
  of the \<open>finally\<close> completes, \<open>scrapeLeads\<close> resolves, for every argument and whatever its
  collaborators do: with a success, whose metadata hold \<open>totalLeads\<close> equal to the length of
  \<open>leads\<close>, or with a failure that holds an error message and an empty \<open>leads\<close>.
\<close>

theorem scrapeLeads_resolves:
  "(fst (tryBlock env opts) \<longrightarrow> browserClose env = None) \<longrightarrow>
     (\<exists>r. scrapeLeads env opts = Inr r
        \<and> ((success r \<and> error r = None
             \<and> (\<exists>m. metadata r = Some m \<and> totalLeads m = length (leads r)))
            \<or> (\<not> success r \<and> leads r = [] \<and> metadata r = None \<and> (\<exists>msg. error r = Some msg))))"
proof
  assume h: "fst (tryBlock env opts) \<longrightarrow> browserClose env = None"
  obtain b outcome where tb: "tryBlock env opts = (b, outcome)" by (cases "tryBlock env opts")
  show "\<exists>r. scrapeLeads env opts = Inr r
        \<and> ((success r \<and> error r = None
             \<and> (\<exists>m. metadata r = Some m \<and> totalLeads m = length (leads r)))
            \<or> (\<not> success r \<and> leads r = [] \<and> metadata r = None \<and> (\<exists>msg. error r = Some msg)))"
  proof (cases outcome)
    case (Inl e)
    with tb h show ?thesis by (cases b) (auto simp: scrapeLeads_def Let_def)
  next
    case (Inr r)
    with tb tryBlock_Inr [of env opts r]
    have "success r \<and> error r = None \<and> (\<exists>m. metadata r = Some m \<and> totalLeads m = length (leads r))"
      by simp
    with Inr tb h show ?thesis by (cases b) (auto simp: scrapeLeads_def Let_def)
  qed
qed

theorem scrapeLeads_resolves_witness:
  "\<exists>r. scrapeLeads (sampleRun overflowPass None)
          \<lparr> opt_targetDate = Some (TimeValue cutoff2025), opt_startDate = None, opt_maxLeads = None,
            opt_extractDetails = None, opt_status = None \<rparr> = Inr r
       \<and> success r \<and> (\<exists>m. metadata r = Some m \<and> totalLeads m = length (leads r))"
proof -
  let ?env = "sampleRun overflowPass None"
  let ?opts = "\<lparr> opt_targetDate = Some (TimeValue cutoff2025), opt_startDate = None,
                 opt_maxLeads = None, opt_extractDetails = None, opt_status = None \<rparr>"
  have c: "browserClose ?env = None" by (simp add: sampleRun_def)
  have s: "(case scrapeLeads ?env ?opts of Inl e \<Rightarrow> False | Inr r \<Rightarrow> success r)" by code_simp
  from c scrapeLeads_resolves [of ?env ?opts] obtain r where
    r: "scrapeLeads ?env ?opts = Inr r"
    and d: "(success r \<and> error r = None
             \<and> (\<exists>m. metadata r = Some m \<and> totalLeads m = length (leads r)))
            \<or> (\<not> success r \<and> leads r = [] \<and> metadata r = None \<and> (\<exists>msg. error r = Some msg))"
    by blast
  from s r have "success r" by simp
  with r d show ?thesis by blast
qed

text \<open>
  Claim C9 as stated fails when \<open>browser.close()\<close> throws: the \<open>finally\<close> is outside the
  \<open>try\<close>, so the promise is rejected with that error, here after a collection that had
  succeeded.
\<close>

theorem scrapeLeads_rejects_counterexample:
  "scrapeLeads (sampleRun overflowPass (Some (Error ''Protocol error (Browser.close)'')))
     \<lparr> opt_targetDate = Some (TimeValue cutoff2025), opt_startDate = None, opt_maxLeads = None,
       opt_extractDetails = None, opt_status = None \<rparr>
   = Inl (Error ''Protocol error (Browser.close)'')"
  by code_simp

lemma scrapeLeads_no_flag: "scrapeLeads env opts = Inr r \<Longrightarrow> isSessionClosed r = None"
  by (auto simp: scrapeLeads_def tryBlock_def Let_def
           split: option.splits jsdate.splits sum.splits if_splits prod.splits)

lemma postScrape_code: "res_code (postScrape env body) = None"
  using scrapeLeads_no_flag
  by (auto simp: postScrape_def failed_def Let_def
           split: option.splits jsdate.splits sum.splits)

text \<open>
  Claim C1 at a run whose page has been sent to the "not connected" address when the loop
  starts. The \<open>SessionClosedError\<close> leaves the loop; \<open>scrapeLeads\<close> catches it and returns
  the failure with its message and no \<open>isSessionClosed\<close> key; the route, which reads that
  key, answers with the plain failure and no code. No run at all makes the route answer with
  a code.
\<close>

theorem session_closed_answered_as_generic_failure:
  "whileLoop rejectSlashDates cutoff2025 \<lparr> maxScrolls = 200, maxLeads = 10000, extractDetails = False \<rparr>
      (feed (onePass disconnectedPass)) initialState
     = Inl (SessionClosedError sessionClosedMessage)
   \<and> scrapeLeads (sampleRun disconnectedPass None)
        \<lparr> opt_targetDate = Some (TimeValue cutoff2025), opt_startDate = None,
          opt_maxLeads = Some 10000, opt_extractDetails = Some False,
          opt_status = Some ''pendiente_contactar'' \<rparr>
     = Inr \<lparr> success = False, leads = [], metadata = None, error = Some sessionClosedMessage,
             isSessionClosed = None \<rparr>
   \<and> postScrape (sampleRun disconnectedPass None) sampleRequest = failed 500 sessionClosedMessage
   \<and> res_code (postScrape (sampleRun disconnectedPass None) sampleRequest) \<noteq> Some ''SESSION_CLOSED''
   \<and> res_code (postScrape env body) = None"
proof -
  have a: "whileLoop rejectSlashDates cutoff2025 \<lparr> maxScrolls = 200, maxLeads = 10000, extractDetails = False \<rparr>
      (feed (onePass disconnectedPass)) initialState
     = Inl (SessionClosedError sessionClosedMessage)"
    by code_simp
  have b: "scrapeLeads (sampleRun disconnectedPass None)
        \<lparr> opt_targetDate = Some (TimeValue cutoff2025), opt_startDate = None,
          opt_maxLeads = Some 10000, opt_extractDetails = Some False,
          opt_status = Some ''pendiente_contactar'' \<rparr>
     = Inr \<lparr> success = False, leads = [], metadata = None, error = Some sessionClosedMessage,
             isSessionClosed = None \<rparr>"
    by code_simp
  have c: "postScrape (sampleRun disconnectedPass None) sampleRequest = failed 500 sessionClosedMessage"
    by code_simp
  have d: "res_code (postScrape env body) = None" for env body by (rule postScrape_code)
  from d [of "sampleRun disconnectedPass None" sampleRequest]
  have e: "res_code (postScrape (sampleRun disconnectedPass None) sampleRequest) \<noteq> Some ''SESSION_CLOSED''"
    by simp
  show ?thesis by (intro conjI) (rule a b c e d)+
qed

end
